theory Spec2Isabelle
  imports Main "HOL-Library.Word" "HOL-Library.AList"
begin

section \<open>JavaScript strings\<close>

text \<open>
  A JavaScript string is a sequence of 16-bit code units. The literals of the source are
  ASCII, so they are written as Isabelle strings and lifted with \<open>js\<close>. A string is falsy
  exactly when it is empty, which is what \<open>!name\<close>, \<open>if (editId)\<close> and
  \<open>if (storedData)\<close> test.
\<close>

type_synonym code_unit = "16 word"
type_synonym js_string = "code_unit list"

definition js :: "string \<Rightarrow> js_string" where
  "js s = map of_char s"

text \<open>
  The truthiness test on a value that is \<open>null\<close> or a string: \<open>null\<close> and the empty
  string are falsy, every other string is truthy. \<open>truthy\<close> gives the string when the test
  succeeds.
\<close>

definition truthy :: "js_string option \<Rightarrow> js_string option" where
  "truthy v = (case v of None \<Rightarrow> None | Some x \<Rightarrow> if x = [] then None else Some x)"

text \<open>
  \<open>Date.now().toString()\<close>: the clock reading (milliseconds since the epoch, a
  non-negative integer below \<open>10^21\<close>) printed in decimal, most significant digit first.
\<close>

definition digit :: "nat \<Rightarrow> code_unit" where
  "digit d = of_nat (48 + d)"

fun decimal :: "nat \<Rightarrow> js_string" where
  "decimal n = (if n < 10 then [digit n] else decimal (n div 10) @ [digit (n mod 10)])"

declare decimal.simps [simp del]

definition Date_now_toString :: "nat \<Rightarrow> js_string" where
  "Date_now_toString now = decimal now"

section \<open>The Student interface\<close>

text \<open>
  \<open>interface Student { id; first_name; last_name; email; age; grade }\<close>, all strings.
  The fields \<open>id\<close>, \<open>email\<close>, \<open>age\<close> and \<open>grade\<close> carry the suffix \<open>_s\<close>: \<open>id\<close> is the
  identity function of HOL, and the other three are also names of state hooks of the screen.
\<close>

record Student =
  id_s :: js_string
  first_name :: js_string
  last_name :: js_string
  email_s :: js_string
  age_s :: js_string
  grade_s :: js_string

section \<open>JSON.stringify on a Student array\<close>

text \<open>
  \<open>QuoteJSONString\<close> of ECMA-262: a backslash and a letter for backspace, tab, line
  feed, form feed and carriage return; a backslash before the quotation mark and before the
  backslash; a backslash, the letter u and four lower-case hexadecimal digits for the other
  code units below U+0020 and for a surrogate that is not part of a pair; every other code
  unit as it is. A leading surrogate followed by a trailing one is a pair and is copied.
\<close>

definition hex_digit :: "nat \<Rightarrow> code_unit" where
  "hex_digit d = (if d < 10 then of_nat (48 + d) else of_nat (87 + d))"

definition UnicodeEscape :: "code_unit \<Rightarrow> js_string" where
  "UnicodeEscape c =
     [0x5C, 0x75, hex_digit (unat c div 4096 mod 16), hex_digit (unat c div 256 mod 16),
      hex_digit (unat c div 16 mod 16), hex_digit (unat c mod 16)]"

definition is_leading_surrogate :: "code_unit \<Rightarrow> bool" where
  "is_leading_surrogate c = (0xD800 \<le> c \<and> c \<le> 0xDBFF)"

definition is_trailing_surrogate :: "code_unit \<Rightarrow> bool" where
  "is_trailing_surrogate c = (0xDC00 \<le> c \<and> c \<le> 0xDFFF)"

definition quote_unit :: "code_unit \<Rightarrow> js_string" where
  "quote_unit c =
     (if c = 0x08 then [0x5C, 0x62]
      else if c = 0x09 then [0x5C, 0x74]
      else if c = 0x0A then [0x5C, 0x6E]
      else if c = 0x0C then [0x5C, 0x66]
      else if c = 0x0D then [0x5C, 0x72]
      else if c = 0x22 then [0x5C, 0x22]
      else if c = 0x5C then [0x5C, 0x5C]
      else if c < 0x20 \<or> is_leading_surrogate c \<or> is_trailing_surrogate c then UnicodeEscape c
      else [c])"

fun quote_units :: "js_string \<Rightarrow> js_string" where
  "quote_units [] = []"
| "quote_units [c] = quote_unit c"
| "quote_units (c # d # cs) =
     (if is_leading_surrogate c \<and> is_trailing_surrogate d then c # d # quote_units cs
      else quote_unit c @ quote_units (d # cs))"

definition QuoteJSONString :: "js_string \<Rightarrow> js_string" where
  "QuoteJSONString s = 0x22 # quote_units s @ [0x22]"

text \<open>
  An object is printed as its properties in creation order, \<open>"key":value\<close> joined by commas
  between braces; an array as its elements joined by commas between brackets; no white space.
  Both object literals of \<open>saveStudent\<close> create the properties in the order used here.
\<close>

definition stringify_property :: "string \<Rightarrow> js_string \<Rightarrow> js_string" where
  "stringify_property k v = QuoteJSONString (js k) @ [0x3A] @ QuoteJSONString v"

definition stringify_Student :: "Student \<Rightarrow> js_string" where
  "stringify_Student st =
     [0x7B] @ stringify_property ''id'' (id_s st) @ [0x2C]
       @ stringify_property ''first_name'' (first_name st) @ [0x2C]
       @ stringify_property ''last_name'' (last_name st) @ [0x2C]
       @ stringify_property ''email'' (email_s st) @ [0x2C]
       @ stringify_property ''age'' (age_s st) @ [0x2C]
       @ stringify_property ''grade'' (grade_s st) @ [0x7D]"

fun stringify_elements :: "Student list \<Rightarrow> js_string" where
  "stringify_elements [] = []"
| "stringify_elements [st] = stringify_Student st"
| "stringify_elements (st # st' # sts) =
     stringify_Student st @ [0x2C] @ stringify_elements (st' # sts)"

definition JSON_stringify :: "Student list \<Rightarrow> js_string" where
  "JSON_stringify data = [0x5B] @ stringify_elements data @ [0x5D]"

section \<open>JSON.parse\<close>

text \<open>
  The values of the JSON grammar (ECMA-404). A number is kept as its lexeme: no handler
  computes with one. An object is its members in order of first insertion; a repeated key
  overwrites the value in place, as \<open>JSON.parse\<close> does.
\<close>

datatype json =
    JNull
  | JBool bool
  | JNumber js_string
  | JString js_string
  | JArray "json list"
  | JObject "(js_string \<times> json) list"

text \<open>White space of JSON: space, tab, line feed, carriage return.\<close>

definition is_ws :: "code_unit \<Rightarrow> bool" where
  "is_ws c = (c = 0x20 \<or> c = 0x09 \<or> c = 0x0A \<or> c = 0x0D)"

definition skip_ws :: "js_string \<Rightarrow> js_string" where
  "skip_ws s = dropWhile is_ws s"

text \<open>
  The characters of a string literal after its opening quotation mark, up to the closing
  one. A backslash starts an escape: a quotation mark, a backslash or a slash for itself,
  one of the letters b, f, n, r, t for its control character, or the letter u with four
  hexadecimal digits for that code unit. A code unit below U+0020 is a syntax error. The
  result is the string and the text after the closing quotation mark.
\<close>

definition hex_val :: "code_unit \<Rightarrow> nat option" where
  "hex_val c =
     (if 0x30 \<le> c \<and> c \<le> 0x39 then Some (unat c - 48)
      else if 0x61 \<le> c \<and> c \<le> 0x66 then Some (unat c - 87)
      else if 0x41 \<le> c \<and> c \<le> 0x46 then Some (unat c - 55)
      else None)"

fun hex4 :: "js_string \<Rightarrow> code_unit option" where
  "hex4 [a, b, c, d] =
     (case (hex_val a, hex_val b, hex_val c, hex_val d) of
        (Some x, Some y, Some z, Some w) \<Rightarrow> Some (of_nat (((x * 16 + y) * 16 + z) * 16 + w))
      | _ \<Rightarrow> None)"
| "hex4 _ = None"

definition unescape :: "code_unit \<Rightarrow> code_unit option" where
  "unescape e =
     (if e = 0x22 then Some 0x22
      else if e = 0x5C then Some 0x5C
      else if e = 0x2F then Some 0x2F
      else if e = 0x62 then Some 0x08
      else if e = 0x66 then Some 0x0C
      else if e = 0x6E then Some 0x0A
      else if e = 0x72 then Some 0x0D
      else if e = 0x74 then Some 0x09
      else None)"

fun parse_chars :: "js_string \<Rightarrow> (js_string \<times> js_string) option" where
  "parse_chars [] = None"
| "parse_chars (c # cs) =
     (if c = 0x22 then Some ([], cs)
      else if c = 0x5C then
        (case cs of
           [] \<Rightarrow> None
         | e # r \<Rightarrow>
             if e = 0x75 then
               (case hex4 (take 4 r) of
                  None \<Rightarrow> None
                | Some u \<Rightarrow> map_option (apfst ((#) u)) (parse_chars (drop 4 r)))
             else
               (case unescape e of
                  None \<Rightarrow> None
                | Some u \<Rightarrow> map_option (apfst ((#) u)) (parse_chars r)))
      else if c < 0x20 then None
      else map_option (apfst ((#) c)) (parse_chars cs))"

text \<open>
  A number lexeme: an optional minus, an integer part without a leading zero, an optional
  fraction, an optional exponent.
\<close>

definition is_digit :: "code_unit \<Rightarrow> bool" where
  "is_digit c = (0x30 \<le> c \<and> c \<le> 0x39)"

definition scan_number :: "js_string \<Rightarrow> (js_string \<times> js_string) option" where
  "scan_number s =
     (let s1 = (case s of [] \<Rightarrow> s | c # r \<Rightarrow> if c = 0x2D then r else s);
          ip = takeWhile is_digit s1;
          s2 = dropWhile is_digit s1;
          fr = (case s2 of [] \<Rightarrow> [] | c # r \<Rightarrow> if c = 0x2E then c # takeWhile is_digit r else []);
          s3 = drop (length fr) s2;
          ex = (case s3 of
                  [] \<Rightarrow> []
                | c # r \<Rightarrow>
                    if c = 0x65 \<or> c = 0x45 then
                      (case r of
                         [] \<Rightarrow> [c]
                       | g # t \<Rightarrow> if g = 0x2B \<or> g = 0x2D then c # g # takeWhile is_digit t
                                  else c # takeWhile is_digit r)
                    else []);
          n = (length s - length s1) + length ip + length fr + length ex
      in if ip = [] \<or> (hd ip = 0x30 \<and> 1 < length ip) \<or> length fr = 1
            \<or> (ex \<noteq> [] \<and> \<not> is_digit (last ex))
         then None
         else Some (take n s, drop n s))"

text \<open>
  The recursive-descent parser. Its first argument bounds the number of calls still allowed
  on the way down (fuel), and \<open>JSON_parse\<close> gives it twice the length of the text. That
  is enough for every text: when some amount of fuel yields a value, so does this one
  (lemma \<open>JSON_parse_fuel\<close> below). \<open>None\<close> is therefore the \<open>SyntaxError\<close> that
  \<open>JSON.parse\<close> throws. \<open>JSON_parse\<close> accepts white space around the value and nothing
  else after it.
\<close>

definition keyword :: "string \<Rightarrow> js_string \<Rightarrow> js_string option" where
  "keyword w s = (if take (length w) s = js w then Some (drop (length w) s) else None)"

fun parse_value :: "nat \<Rightarrow> js_string \<Rightarrow> (json \<times> js_string) option"
  and parse_elements :: "nat \<Rightarrow> json list \<Rightarrow> js_string \<Rightarrow> (json \<times> js_string) option"
  and parse_members :: "nat \<Rightarrow> (js_string \<times> json) list \<Rightarrow> js_string \<Rightarrow> (json \<times> js_string) option"
where
  "parse_value 0 s = None"
| "parse_value (Suc n) s =
     (case skip_ws s of
        [] \<Rightarrow> None
      | c # cs \<Rightarrow>
          if c = 0x22 then map_option (apfst JString) (parse_chars cs)
          else if c = 0x5B then
            (case skip_ws cs of
               [] \<Rightarrow> None
             | d # ds \<Rightarrow> if d = 0x5D then Some (JArray [], ds) else parse_elements n [] (d # ds))
          else if c = 0x7B then
            (case skip_ws cs of
               [] \<Rightarrow> None
             | d # ds \<Rightarrow> if d = 0x7D then Some (JObject [], ds) else parse_members n [] (d # ds))
          else if c = 0x6E then map_option (Pair JNull) (keyword ''null'' (c # cs))
          else if c = 0x74 then map_option (Pair (JBool True)) (keyword ''true'' (c # cs))
          else if c = 0x66 then map_option (Pair (JBool False)) (keyword ''false'' (c # cs))
          else map_option (apfst JNumber) (scan_number (c # cs)))"
| "parse_elements 0 acc s = None"
| "parse_elements (Suc n) acc s =
     (case parse_value n s of
        None \<Rightarrow> None
      | Some (v, r) \<Rightarrow>
          (case skip_ws r of
             [] \<Rightarrow> None
           | c # cs \<Rightarrow>
               if c = 0x2C then parse_elements n (acc @ [v]) cs
               else if c = 0x5D then Some (JArray (acc @ [v]), cs)
               else None))"
| "parse_members 0 acc s = None"
| "parse_members (Suc n) acc s =
     (case skip_ws s of
        [] \<Rightarrow> None
      | c # cs \<Rightarrow>
          if c \<noteq> 0x22 then None
          else
            (case parse_chars cs of
               None \<Rightarrow> None
             | Some (k, r) \<Rightarrow>
                 (case skip_ws r of
                    [] \<Rightarrow> None
                  | d # ds \<Rightarrow>
                      if d \<noteq> 0x3A then None
                      else
                        (case parse_value n ds of
                           None \<Rightarrow> None
                         | Some (v, r') \<Rightarrow>
                             (case skip_ws r' of
                                [] \<Rightarrow> None
                              | e # es \<Rightarrow>
                                  if e = 0x2C then parse_members n (AList.update k v acc) es
                                  else if e = 0x7D then Some (JObject (AList.update k v acc), es)
                                  else None)))))"

definition JSON_parse :: "js_string \<Rightarrow> json option" where
  "JSON_parse text =
     (case parse_value (2 * length text) text of
        None \<Rightarrow> None
      | Some (v, r) \<Rightarrow> if skip_ws r = [] then Some v else None)"

text \<open>Fuel \<open>k\<close> is enough to parse the part of \<open>s\<close> that ends where \<open>r\<close> begins.\<close>

definition enough :: "js_string \<Rightarrow> js_string \<Rightarrow> nat \<Rightarrow> bool" where
  "enough s r k = (2 * (length s - length r) \<le> k)"

section \<open>A parsed value as a Student array\<close>

text \<open>
  \<open>setStudents(JSON.parse(storedData))\<close> stores whatever was parsed; the state hook is
  typed \<open>Student[]\<close>. \<open>as_Students\<close> reads a parsed value at that type: an array of objects
  that have exactly the six properties, each a string. \<open>Student_json\<close> is the value that a
  Student is.
\<close>

definition string_property :: "(js_string \<times> json) list \<Rightarrow> string \<Rightarrow> js_string option" where
  "string_property ms k = (case map_of ms (js k) of Some (JString v) \<Rightarrow> Some v | _ \<Rightarrow> None)"

definition as_Student :: "json \<Rightarrow> Student option" where
  "as_Student v =
     (case v of
        JObject ms \<Rightarrow>
          if length ms = 6 then
            Option.bind (string_property ms ''id'') (\<lambda>i.
            Option.bind (string_property ms ''first_name'') (\<lambda>f.
            Option.bind (string_property ms ''last_name'') (\<lambda>l.
            Option.bind (string_property ms ''email'') (\<lambda>e.
            Option.bind (string_property ms ''age'') (\<lambda>a.
            Option.bind (string_property ms ''grade'') (\<lambda>g.
              Some \<lparr>id_s = i, first_name = f, last_name = l,
                    email_s = e, age_s = a, grade_s = g\<rparr>))))))
          else None
      | _ \<Rightarrow> None)"

definition as_Students :: "json \<Rightarrow> Student list option" where
  "as_Students v = (case v of JArray vs \<Rightarrow> those (map as_Student vs) | _ \<Rightarrow> None)"

definition Student_json :: "Student \<Rightarrow> json" where
  "Student_json st =
     JObject [(js ''id'', JString (id_s st)), (js ''first_name'', JString (first_name st)),
              (js ''last_name'', JString (last_name st)), (js ''email'', JString (email_s st)),
              (js ''age'', JString (age_s st)), (js ''grade'', JString (grade_s st))]"

section \<open>The device and the state of the records screen\<close>

text \<open>
  What the handlers reach outside the component: the dialogs shown by \<open>Alert.alert\<close> (title
  and message, oldest first), the messages of \<open>console.error\<close>, the items of AsyncStorage and
  the destination the navigator shows.
\<close>

datatype destination = Login | Home

record device =
  alerts :: "(js_string \<times> js_string) list"
  console_errors :: "js_string list"
  AsyncStorage :: "js_string \<rightharpoonup> js_string"
  navigation :: destination

text \<open>The \<open>useState\<close> hooks of the records screen (the second component of the source).\<close>

record HomeScreen = device +
  students :: "Student list"
  name :: js_string
  email :: js_string
  age :: js_string
  grade :: js_string
  editId :: "js_string option"
  modalVisible :: bool
  selectedStudent :: "Student option"

text \<open>A call of AsyncStorage either resolves or rejects; the device decides which.\<close>

datatype promise = Resolves | Rejects

text \<open>The button of the confirmation dialog the user presses.\<close>

datatype button = Batal | Hapus

definition Alert_alert :: "string \<Rightarrow> string \<Rightarrow> 'a device_scheme \<Rightarrow> 'a device_scheme" where
  "Alert_alert title message d = d\<lparr>alerts := alerts d @ [(js title, js message)]\<rparr>"

definition console_error :: "string \<Rightarrow> 'a device_scheme \<Rightarrow> 'a device_scheme" where
  "console_error message d = d\<lparr>console_errors := console_errors d @ [js message]\<rparr>"

text \<open>
  \<open>saveToStorage\<close>: \<open>AsyncStorage.setItem('students', JSON.stringify(data))\<close> inside
  \<open>try\<close>; a rejection is caught and logged, and the item keeps its old value.
\<close>

definition saveToStorage :: "promise \<Rightarrow> Student list \<Rightarrow> 'a device_scheme \<Rightarrow> 'a device_scheme" where
  "saveToStorage setItem data d =
     (case setItem of
        Resolves \<Rightarrow> d\<lparr>AsyncStorage := (AsyncStorage d)(js ''students'' \<mapsto> JSON_stringify data)\<rparr>
      | Rejects \<Rightarrow> console_error ''Gagal menyimpan ke AsyncStorage:'' d)"

text \<open>
  \<open>saveStudent\<close>. \<open>now\<close> is what \<open>Date.now()\<close> returns and \<open>setItem\<close> how the write to
  AsyncStorage ends. The setters take effect together at the next render, so the handler
  reads the hooks of the state it was given.
\<close>

definition saveStudent :: "nat \<Rightarrow> promise \<Rightarrow> HomeScreen \<Rightarrow> HomeScreen" where
  "saveStudent now setItem s =
     (if name s = [] \<or> email s = [] \<or> age s = [] \<or> grade s = [] then
        Alert_alert ''Error'' ''Semua kolom harus diisi!'' s
      else
        let (updatedStudents, s') =
          (case truthy (editId s) of
             Some eid \<Rightarrow>
               (map (\<lambda>st. if id_s st = eid
                           then \<lparr>id_s = eid, first_name = name s, last_name = [],
                                 email_s = email s, age_s = age s, grade_s = grade s\<rparr>
                           else st) (students s),
                Alert_alert ''Sukses'' ''Data siswa berhasil diperbarui!'' (s\<lparr>editId := None\<rparr>))
           | None \<Rightarrow>
               (students s @
                  [\<lparr>id_s = Date_now_toString now, first_name = name s, last_name = [],
                    email_s = email s, age_s = age s, grade_s = grade s\<rparr>],
                Alert_alert ''Sukses'' ''Siswa berhasil ditambahkan!'' s))
        in (saveToStorage setItem updatedStudents (s'\<lparr>students := updatedStudents\<rparr>))
             \<lparr>name := [], email := [], age := [], grade := []\<rparr>)"

text \<open>
  \<open>deleteStudent\<close> shows the confirmation dialog; only the button "Hapus" runs the callback
  that filters the list, writes it and reports success.
\<close>

definition deleteStudent :: "js_string \<Rightarrow> button \<Rightarrow> promise \<Rightarrow> HomeScreen \<Rightarrow> HomeScreen" where
  "deleteStudent i pressed setItem s =
     (let s' = Alert_alert ''Konfirmasi'' ''Apakah Anda yakin ingin menghapus siswa ini?'' s in
      case pressed of
        Batal \<Rightarrow> s'
      | Hapus \<Rightarrow>
          let updatedStudents = filter (\<lambda>student. id_s student \<noteq> i) (students s) in
          Alert_alert ''Sukses'' ''Siswa berhasil dihapus!''
            (saveToStorage setItem updatedStudents (s'\<lparr>students := updatedStudents\<rparr>)))"

definition editStudent :: "Student \<Rightarrow> HomeScreen \<Rightarrow> HomeScreen" where
  "editStudent student s =
     s\<lparr>name := first_name student, email := email_s student, age := age_s student,
       grade := grade_s student, editId := Some (id_s student)\<rparr>"

definition viewStudent :: "Student \<Rightarrow> HomeScreen \<Rightarrow> HomeScreen" where
  "viewStudent student s = s\<lparr>selectedStudent := Some student, modalVisible := True\<rparr>"

text \<open>
  \<open>loadStudents\<close>, the effect run once when the screen mounts. A rejected read and a
  \<open>SyntaxError\<close> of \<open>JSON.parse\<close> are caught and logged, and the state stays as it is; an
  absent or empty item is skipped. A parsed value that is not a Student array would be
  stored as it is, against the type of the hook: the model stops there with
  \<open>Not_a_Student_array\<close>.
\<close>

datatype load_error = Not_a_Student_array json

definition loadStudents :: "promise \<Rightarrow> HomeScreen \<Rightarrow> load_error + HomeScreen" where
  "loadStudents getItem s =
     (case getItem of
        Rejects \<Rightarrow> Inr (console_error ''Gagal mengambil data dari AsyncStorage:'' s)
      | Resolves \<Rightarrow>
          (case truthy (AsyncStorage s (js ''students'')) of
             None \<Rightarrow> Inr s
           | Some storedData \<Rightarrow>
               (case JSON_parse storedData of
                  None \<Rightarrow> Inr (console_error ''Gagal mengambil data dari AsyncStorage:'' s)
                | Some v \<Rightarrow>
                    (case as_Students v of
                       None \<Rightarrow> Inl (Not_a_Student_array v)
                     | Some data \<Rightarrow> Inr (s\<lparr>students := data\<rparr>)))))"

text \<open>The screen as it mounts on a device: every hook at its initial value.\<close>

definition mount :: "'a device_scheme \<Rightarrow> HomeScreen" where
  "mount d =
     \<lparr>alerts = alerts d, console_errors = console_errors d, AsyncStorage = AsyncStorage d,
      navigation = navigation d,
      students = [], name = [], email = [], age = [], grade = [], editId = None,
      modalVisible = False, selectedStudent = None\<rparr>"

section \<open>The login screen\<close>

text \<open>
  What \<open>axios.post\<close> meets: no response at all, or a response with a status and a body.
  \<open>response.data\<close> is \<open>null\<close> or \<open>undefined\<close> (reading \<open>.token\<close> from it throws a
  \<open>TypeError\<close>), or a value whose \<open>token\<close> property is absent or a string, as the contract
  of the endpoint has it. With the default \<open>validateStatus\<close>, axios resolves for a status
  from 200 to 299 and rejects otherwise.
\<close>

datatype response_data = Nullish | Data "js_string option"

datatype axios_result = Network_error | Response nat response_data

definition axios_post :: "axios_result \<Rightarrow> response_data option" where
  "axios_post r =
     (case r of
        Network_error \<Rightarrow> None
      | Response status body \<Rightarrow> if 200 \<le> status \<and> status < 300 then Some body else None)"

definition navigation_replace :: "destination \<Rightarrow> 'a device_scheme \<Rightarrow> 'a device_scheme" where
  "navigation_replace dest d = d\<lparr>navigation := dest\<rparr>"

text \<open>
  \<open>handleLogin\<close>; \<open>em\<close> and \<open>pw\<close> are the hooks \<open>email\<close> and \<open>password\<close> of the login
  screen, which the handler only reads. A rejection of the call and the \<open>TypeError\<close> both
  end in the \<open>catch\<close> block.
\<close>

definition handleLogin :: "js_string \<Rightarrow> js_string \<Rightarrow> axios_result \<Rightarrow> device \<Rightarrow> device" where
  "handleLogin em pw result d =
     (if em = [] \<or> pw = [] then Alert_alert ''Error'' ''Email dan password wajib diisi!'' d
      else
        (case axios_post result of
           None \<Rightarrow> Alert_alert ''Gagal'' ''Email atau password salah'' d
         | Some Nullish \<Rightarrow> Alert_alert ''Gagal'' ''Email atau password salah'' d
         | Some (Data token) \<Rightarrow>
             (case truthy token of
                Some t \<Rightarrow> navigation_replace Home (Alert_alert ''Sukses'' ''Login berhasil!'' d)
              | None \<Rightarrow> d)))"

section \<open>Runs of the records screen\<close>

text \<open>
  What the user can do on the records screen: type into one of the four inputs, press the
  save button (with the clock reading and the outcome of the write the press meets), press
  "Edit", "Hapus" (with the answer to the dialog) or the name of the row at an index, close
  the detail dialog. A row exists for every index below the length of the list.
\<close>

datatype event =
    SetName js_string
  | SetEmail js_string
  | SetAge js_string
  | SetGrade js_string
  | PressSave nat promise
  | PressEdit nat
  | PressDelete nat button promise
  | PressView nat
  | PressTutup

fun step :: "event \<Rightarrow> HomeScreen \<Rightarrow> HomeScreen" where
  "step (SetName v) s = s\<lparr>name := v\<rparr>"
| "step (SetEmail v) s = s\<lparr>email := v\<rparr>"
| "step (SetAge v) s = s\<lparr>age := v\<rparr>"
| "step (SetGrade v) s = s\<lparr>grade := v\<rparr>"
| "step (PressSave now setItem) s = saveStudent now setItem s"
| "step (PressEdit i) s = (if i < length (students s) then editStudent (students s ! i) s else s)"
| "step (PressDelete i pressed setItem) s =
     (if i < length (students s) then deleteStudent (id_s (students s ! i)) pressed setItem s
      else s)"
| "step (PressView i) s = (if i < length (students s) then viewStudent (students s ! i) s else s)"
| "step PressTutup s = s\<lparr>modalVisible := False\<rparr>"

fun run :: "event list \<Rightarrow> HomeScreen \<Rightarrow> HomeScreen" where
  "run [] s = s"
| "run (e # es) s = run es (step e s)"

text \<open>
  The clock readings of the presses of the save button, in order, are at least \<open>t\<close> and
  strictly increasing.
\<close>

fun clock_increasing :: "nat \<Rightarrow> event list \<Rightarrow> bool" where
  "clock_increasing t [] = True"
| "clock_increasing t (PressSave now setItem # es) = (t \<le> now \<and> clock_increasing (Suc now) es)"
| "clock_increasing t (e # es) = clock_increasing t es"

text \<open>
  The invariant of the runs with an increasing clock: the ids of the list are pairwise
  different, and each is the decimal string of a clock reading below \<open>t\<close>.
\<close>

definition stamped_before :: "nat \<Rightarrow> HomeScreen \<Rightarrow> bool" where
  "stamped_before t s =
     (distinct (map id_s (students s))
      \<and> (\<forall>j\<in>set (map id_s (students s)). \<exists>u<t. j = Date_now_toString u))"

section \<open>Example data\<close>

definition device0 :: device where
  "device0 = \<lparr>alerts = [], console_errors = [], AsyncStorage = Map.empty, navigation = Home\<rparr>"

definition Ann :: Student where
  "Ann = \<lparr>id_s = js ''1700000000000'', first_name = js ''Ann'', last_name = js ''Lee'',
          email_s = js ''a@x.com'', age_s = js ''10'', grade_s = js ''5''\<rparr>"

definition Budi :: Student where
  "Budi = \<lparr>id_s = js ''1700000000500'', first_name = js ''Budi'', last_name = [],
           email_s = js ''b@x.com'', age_s = js ''11'', grade_s = js ''5''\<rparr>"

text \<open>Two records in the list, the form filled in.\<close>

definition filled_form :: HomeScreen where
  "filled_form =
     (mount device0)\<lparr>students := [Ann, Budi], name := js ''Cici'', email := js ''c@x.com'',
                     age := js ''12'', grade := js ''6''\<rparr>"

section \<open>JSON.parse after JSON.stringify\<close>

lemma truthy_Some: "x \<noteq> [] \<Longrightarrow> truthy (Some x) = Some x"
  by (simp add: truthy_def)

lemma truthy_None: "truthy None = None"
  by (simp add: truthy_def)

lemma hex_val_hex_digit_all: "list_all (\<lambda>d. hex_val (hex_digit d) = Some d) [0..<16]"
  by code_simp

lemma hex_val_hex_digit: "d < 16 \<Longrightarrow> hex_val (hex_digit d) = Some d"
  using hex_val_hex_digit_all by (simp add: list_all_iff)

lemma hex_positional:
  assumes "n < 65536"
  shows "((n div 4096 mod 16 * 16 + n div 256 mod 16) * 16 + n div 16 mod 16) * 16 + n mod 16 = (n::nat)"
proof -
  have top: "n div 4096 mod 16 = n div 256 div 16"
    using assms by (simp add: div_mult2_eq less_mult_imp_div_less)
  have mid: "n div 256 = n div 16 div 16"
    by (simp add: div_mult2_eq)
  show ?thesis
    unfolding top by (simp add: mid)
qed

lemma unat_code_unit_less: "unat (c :: code_unit) < 65536"
  using unsigned_less [of c] by simp

lemma hex4_hex_digits:
  "hex4 [hex_digit (unat c div 4096 mod 16), hex_digit (unat c div 256 mod 16),
         hex_digit (unat c div 16 mod 16), hex_digit (unat c mod 16)] = Some c"
proof -
  have "hex4 [hex_digit (unat c div 4096 mod 16), hex_digit (unat c div 256 mod 16),
         hex_digit (unat c div 16 mod 16), hex_digit (unat c mod 16)]
      = Some (of_nat (((unat c div 4096 mod 16 * 16 + unat c div 256 mod 16) * 16
                        + unat c div 16 mod 16) * 16 + unat c mod 16))"
    by (simp add: hex_val_hex_digit del: of_nat_add of_nat_mult)
  also have "\<dots> = Some (of_nat (unat c))"
    by (simp only: hex_positional [OF unat_code_unit_less])
  finally show ?thesis by simp
qed

lemma parse_chars_UnicodeEscape:
  "parse_chars (UnicodeEscape c @ r) = map_option (apfst ((#) c)) (parse_chars r)"
  by (simp add: UnicodeEscape_def hex4_hex_digits del: hex4.simps)

lemma parse_chars_quote_unit:
  "parse_chars (quote_unit c @ r) = map_option (apfst ((#) c)) (parse_chars r)"
  unfolding quote_unit_def
  by (simp add: parse_chars_UnicodeEscape unescape_def is_leading_surrogate_def is_trailing_surrogate_def)

lemma parse_chars_surrogate_pair:
  assumes "is_leading_surrogate c" "is_trailing_surrogate d"
  shows "parse_chars (c # d # r) = map_option (apfst (\<lambda>s. c # d # s)) (parse_chars r)"
proof -
  have c: "c \<noteq> 0x22" "c \<noteq> 0x5C" "\<not> c < 0x20"
    using assms(1) by (auto simp: is_leading_surrogate_def word_le_nat_alt word_less_nat_alt)
  have d: "d \<noteq> 0x22" "d \<noteq> 0x5C" "\<not> d < 0x20"
    using assms(2) by (auto simp: is_trailing_surrogate_def word_le_nat_alt word_less_nat_alt)
  show ?thesis
    by (simp add: c d option.map_comp comp_def apfst_def map_prod_def case_prod_unfold)
qed

lemma parse_chars_quote_units: "parse_chars (quote_units s @ 0x22 # r) = Some (s, r)"
proof (induction s rule: quote_units.induct)
  case 1
  show ?case by simp
next
  case (2 c)
  show ?case by (simp add: parse_chars_quote_unit del: parse_chars.simps) simp
next
  case (3 c d cs)
  show ?case
  proof (cases "is_leading_surrogate c \<and> is_trailing_surrogate d")
    case True
    then show ?thesis
      using 3(1) by (simp add: parse_chars_surrogate_pair del: parse_chars.simps)
  next
    case False
    show ?thesis
      using 3(2) [OF False]
      by (simp add: False parse_chars_quote_unit del: parse_chars.simps)
  qed
qed

lemma skip_ws_quote [simp]: "skip_ws (0x22 # s) = 0x22 # s"
  by (simp add: skip_ws_def is_ws_def)

lemma skip_ws_punct [simp]:
  "skip_ws (0x2C # s) = 0x2C # s" "skip_ws (0x3A # s) = 0x3A # s"
  "skip_ws (0x5D # s) = 0x5D # s" "skip_ws (0x7D # s) = 0x7D # s"
  "skip_ws (0x7B # s) = 0x7B # s" "skip_ws (0x5B # s) = 0x5B # s"
  by (simp_all add: skip_ws_def is_ws_def)

lemma skip_ws_Nil [simp]: "skip_ws [] = []"
  by (simp add: skip_ws_def)

lemma parse_value_QuoteJSONString:
  "parse_value (Suc n) (QuoteJSONString v @ r) = Some (JString v, r)"
  by (simp add: QuoteJSONString_def parse_chars_quote_units del: parse_chars.simps)

lemma parse_members_property_comma:
  "parse_members (Suc (Suc n)) acc (stringify_property k v @ 0x2C # r) =
     parse_members (Suc n) (AList.update (js k) (JString v) acc) r"
proof -
  have "stringify_property k v @ 0x2C # r =
        0x22 # quote_units (js k) @ 0x22 # 0x3A # QuoteJSONString v @ 0x2C # r"
    by (simp add: stringify_property_def QuoteJSONString_def)
  then show ?thesis
    by (simp add: parse_chars_quote_units parse_value_QuoteJSONString
          del: parse_chars.simps parse_value.simps)
qed

lemma parse_members_property_brace:
  "parse_members (Suc (Suc n)) acc (stringify_property k v @ 0x7D # r) =
     Some (JObject (AList.update (js k) (JString v) acc), r)"
proof -
  have "stringify_property k v @ 0x7D # r =
        0x22 # quote_units (js k) @ 0x22 # 0x3A # QuoteJSONString v @ 0x7D # r"
    by (simp add: stringify_property_def QuoteJSONString_def)
  then show ?thesis
    by (simp add: parse_chars_quote_units parse_value_QuoteJSONString
          del: parse_chars.simps parse_value.simps)
qed

lemma stringify_Student_unfold:
  "stringify_Student st @ r =
     0x7B # stringify_property ''id'' (id_s st) @ 0x2C #
       stringify_property ''first_name'' (first_name st) @ 0x2C #
       stringify_property ''last_name'' (last_name st) @ 0x2C #
       stringify_property ''email'' (email_s st) @ 0x2C #
       stringify_property ''age'' (age_s st) @ 0x2C #
       stringify_property ''grade'' (grade_s st) @ 0x7D # r"
  by (simp add: stringify_Student_def)

lemma stringify_property_starts: "\<exists>t. stringify_property k v = 0x22 # t"
  by (simp add: stringify_property_def QuoteJSONString_def)

lemma Student_keys_update:
  "AList.update (js ''grade'') g (AList.update (js ''age'') a (AList.update (js ''email'') e
     (AList.update (js ''last_name'') l (AList.update (js ''first_name'') f
        (AList.update (js ''id'') i []))))) =
   [(js ''id'', i), (js ''first_name'', f), (js ''last_name'', l), (js ''email'', e),
    (js ''age'', a), (js ''grade'', g)]"
  by (simp add: js_def)

lemma parse_value_stringify_Student:
  "parse_value (8 + n) (stringify_Student st @ r) = Some (Student_json st, r)"
proof -
  obtain t where t: "stringify_property ''id'' (id_s st) = 0x22 # t"
    using stringify_property_starts by blast
  have fuel: "8 + n = Suc (Suc (Suc (Suc (Suc (Suc (Suc (Suc n)))))))"
    by simp
  have "parse_value (8 + n) (stringify_Student st @ r) =
        parse_members (Suc (Suc (Suc (Suc (Suc (Suc (Suc n))))))) []
          (stringify_property ''id'' (id_s st) @ 0x2C #
           stringify_property ''first_name'' (first_name st) @ 0x2C #
           stringify_property ''last_name'' (last_name st) @ 0x2C #
           stringify_property ''email'' (email_s st) @ 0x2C #
           stringify_property ''age'' (age_s st) @ 0x2C #
           stringify_property ''grade'' (grade_s st) @ 0x7D # r)"
    unfolding fuel stringify_Student_unfold
    by (simp add: t del: parse_members.simps)
  also have "\<dots> = Some (Student_json st, r)"
    by (simp only: parse_members_property_comma parse_members_property_brace
          Student_keys_update Student_json_def)
  finally show ?thesis .
qed

lemma parse_elements_last:
  "parse_elements (Suc (8 + n)) acc (stringify_Student st @ 0x5D # r) =
     Some (JArray (acc @ [Student_json st]), r)"
  apply (subst parse_elements.simps)
  apply (simp only: parse_value_stringify_Student option.case prod.case skip_ws_punct list.case)
  apply simp
  done

lemma parse_elements_more:
  "parse_elements (Suc (8 + n)) acc (stringify_Student st @ 0x2C # r) =
     parse_elements (8 + n) (acc @ [Student_json st]) r"
  apply (subst parse_elements.simps)
  apply (simp only: parse_value_stringify_Student option.case prod.case skip_ws_punct list.case)
  apply simp
  done

lemma parse_elements_stringify_elements:
  "sts \<noteq> [] \<Longrightarrow> length sts + 8 \<le> m \<Longrightarrow>
   parse_elements m acc (stringify_elements sts @ 0x5D # r) =
     Some (JArray (acc @ map Student_json sts), r)"
proof (induction sts arbitrary: acc m rule: stringify_elements.induct)
  case 1
  then show ?case by simp
next
  case (2 st)
  define n where "n = m - 9"
  have m: "m = Suc (8 + n)"
    using "2.prems" by (simp add: n_def)
  show ?case
    by (simp only: m stringify_elements.simps list.map parse_elements_last)
next
  case (3 st st' sts)
  define n where "n = m - 9"
  have m: "m = Suc (8 + n)"
    using "3.prems" by (simp add: n_def)
  have "parse_elements m acc (stringify_elements (st # st' # sts) @ 0x5D # r) =
        parse_elements (Suc (8 + n)) acc
          (stringify_Student st @ 0x2C # stringify_elements (st' # sts) @ 0x5D # r)"
    by (simp only: m stringify_elements.simps append_assoc append_Cons append_Nil)
  also have "\<dots> = parse_elements (8 + n) (acc @ [Student_json st])
          (stringify_elements (st' # sts) @ 0x5D # r)"
    by (rule parse_elements_more)
  also have "\<dots> = Some (JArray ((acc @ [Student_json st]) @ map Student_json (st' # sts)), r)"
    using "3.prems" by (intro "3.IH") (simp_all add: n_def)
  finally show ?case by simp
qed

lemma length_stringify_Student: "8 \<le> length (stringify_Student st)"
  by (simp add: stringify_Student_def stringify_property_def QuoteJSONString_def)

lemma length_stringify_elements: "8 * length sts \<le> length (stringify_elements sts)"
proof (induction sts rule: stringify_elements.induct)
  case (2 st)
  then show ?case using length_stringify_Student [of st] by simp
next
  case (3 st st' sts)
  then show ?case using length_stringify_Student [of st] by simp
qed simp

lemma stringify_elements_starts:
  "sts \<noteq> [] \<Longrightarrow> \<exists>t. stringify_elements sts = 0x7B # t"
  by (induction sts rule: stringify_elements.induct) (simp_all add: stringify_Student_def)

lemma parse_value_open_bracket:
  "parse_value (Suc n) (0x5B # 0x7B # t) = parse_elements n [] (0x7B # t)"
  apply (subst parse_value.simps)
  apply (simp del: parse_value.simps parse_elements.simps parse_members.simps)
  done

lemma parse_value_empty_array: "parse_value (Suc n) [0x5B, 0x5D] = Some (JArray [], [])"
  apply (subst parse_value.simps)
  apply (simp del: parse_value.simps parse_elements.simps parse_members.simps)
  done

lemma parse_value_JSON_stringify:
  assumes "data \<noteq> []" and "Suc (length data + 8) \<le> m"
  shows "parse_value m (JSON_stringify data) = Some (JArray (map Student_json data), [])"
proof -
  obtain t where t: "stringify_elements data = 0x7B # t"
    using assms(1) stringify_elements_starts by blast
  obtain n where m: "m = Suc n"
    using assms(2) by (cases m) simp_all
  have n: "length data + 8 \<le> n"
    using assms(2) m by simp
  have "parse_value m (JSON_stringify data) = parse_elements n [] (0x7B # t @ [0x5D])"
    by (simp only: m JSON_stringify_def t append_Cons append_Nil parse_value_open_bracket)
  also have "\<dots> = parse_elements n [] (stringify_elements data @ 0x5D # [])"
    by (simp only: t append_Cons)
  also have "\<dots> = Some (JArray ([] @ map Student_json data), [])"
    using assms(1) n by (rule parse_elements_stringify_elements)
  finally show ?thesis by (simp only: append_Nil)
qed

lemma JSON_parse_JSON_stringify:
  "JSON_parse (JSON_stringify data) = Some (JArray (map Student_json data))"
proof -
  have "parse_value (2 * length (JSON_stringify data)) (JSON_stringify data) =
      Some (JArray (map Student_json data), [])"
  proof (cases "data = []")
    case True
    have "2 * length (JSON_stringify []) = Suc 3"
      by (simp add: JSON_stringify_def)
    then show ?thesis
      using parse_value_empty_array [of 3] by (simp add: True JSON_stringify_def)
  next
    case False
    then have "1 \<le> length data"
      by (cases data) simp_all
    then have "Suc (length data + 8) \<le> 2 * (8 * length data + 2)"
      by simp
    also have "\<dots> \<le> 2 * length (JSON_stringify data)"
      using length_stringify_elements [of data] by (simp add: JSON_stringify_def)
    finally show ?thesis
      using False by (intro parse_value_JSON_stringify)
  qed
  then show ?thesis
    by (simp add: JSON_parse_def del: parse_value.simps)
qed

lemma as_Student_Student_json: "as_Student (Student_json st) = Some st"
  by (simp add: as_Student_def Student_json_def string_property_def js_def)

lemma as_Students_Student_json: "as_Students (JArray (map Student_json data)) = Some data"
  by (induction data) (simp_all add: as_Students_def as_Student_Student_json)

lemma loadStudents_stored:
  "AsyncStorage s (js ''students'') = Some (JSON_stringify data) \<Longrightarrow>
   loadStudents Resolves s = Inr (s\<lparr>students := data\<rparr>)"
proof -
  assume "AsyncStorage s (js ''students'') = Some (JSON_stringify data)"
  moreover have "JSON_stringify data \<noteq> []"
    by (simp add: JSON_stringify_def)
  ultimately show ?thesis
    by (simp add: loadStudents_def truthy_Some JSON_parse_JSON_stringify as_Students_Student_json)
qed

section \<open>The fuel of the parser\<close>

lemma length_skip_ws: "length (skip_ws s) \<le> length s"
  by (simp add: skip_ws_def length_dropWhile_le)

lemma skip_ws_Cons_length: "skip_ws s = c # cs \<Longrightarrow> length cs < length s"
  using length_skip_ws [of s] by simp

lemma parse_chars_consumes: "parse_chars s = Some (k, r) \<Longrightarrow> length r < length s"
proof (induction s arbitrary: k r rule: parse_chars.induct)
  case 1
  then show ?case by simp
next
  case (2 c cs)
  show ?case
  proof (cases "c = 0x22")
    case True
    with "2.prems" show ?thesis by simp
  next
    case quote: False
    show ?thesis
    proof (cases "c = 0x5C")
      case True
      then obtain e r0 where cs: "cs = e # r0"
        using "2.prems" by (cases cs) simp_all
      show ?thesis
      proof (cases "e = 0x75")
        case u: True
        then obtain w k' where "hex4 (take 4 r0) = Some w" "parse_chars (drop 4 r0) = Some (k', r)"
          using "2.prems" True cs by (auto split: option.splits)
        then have "length r < length (drop 4 r0)"
          using "2.IH"(1) quote True cs u by blast
        then show ?thesis
          using cs by simp
      next
        case u: False
        then obtain w k' where w: "unescape e = Some w" "parse_chars r0 = Some (k', r)"
          using "2.prems" True cs by (auto split: option.splits)
        then have "length r < length r0"
          using "2.IH"(2) [OF quote True cs u w(1)] by blast
        then show ?thesis
          using cs by simp
      qed
    next
      case False
      then obtain k' where "\<not> c < 0x20" "parse_chars cs = Some (k', r)"
        using "2.prems" quote by (auto split: if_splits)
      then have "length r < length cs"
        using "2.IH"(3) quote False by blast
      then show ?thesis by simp
    qed
  qed
qed

lemma keyword_consumes: "keyword w s = Some r \<Longrightarrow> w \<noteq> [] \<Longrightarrow> length r < length s"
  by (cases s) (auto simp: keyword_def js_def split: if_splits)

lemma scan_number_consumes: "scan_number s = Some (x, r) \<Longrightarrow> length r < length s"
proof -
  assume a: "scan_number s = Some (x, r)"
  define s1 where "s1 = (case s of [] \<Rightarrow> s | c # r \<Rightarrow> if c = 0x2D then r else s)"
  have ip: "takeWhile is_digit s1 \<noteq> []"
    using a by (auto simp: scan_number_def Let_def s1_def split: if_splits)
  then have "s1 \<noteq> []" by auto
  then have "s \<noteq> []" by (auto simp: s1_def)
  moreover have "0 < length (takeWhile is_digit s1)" using ip by simp
  ultimately show ?thesis
    using a by (auto simp: scan_number_def Let_def s1_def split: if_splits)
qed

lemma parse_elements_cases:
  assumes "parse_elements (Suc n) acc s = Some (v, r)"
  obtains (more) v1 r1 cs where "parse_value n s = Some (v1, r1)" "skip_ws r1 = 0x2C # cs"
      "parse_elements n (acc @ [v1]) cs = Some (v, r)"
    | (last) v1 r1 where "parse_value n s = Some (v1, r1)" "skip_ws r1 = 0x5D # r"
      "v = JArray (acc @ [v1])"
  using assms by (auto split: option.splits list.splits if_splits)

lemma parse_members_cases:
  assumes "parse_members (Suc n) acc s = Some (v, r)"
  obtains (more) cs key r1 ds v1 r2 es where "skip_ws s = 0x22 # cs"
      "parse_chars cs = Some (key, r1)" "skip_ws r1 = 0x3A # ds" "parse_value n ds = Some (v1, r2)"
      "skip_ws r2 = 0x2C # es" "parse_members n (AList.update key v1 acc) es = Some (v, r)"
    | (last) cs key r1 ds v1 r2 where "skip_ws s = 0x22 # cs"
      "parse_chars cs = Some (key, r1)" "skip_ws r1 = 0x3A # ds" "parse_value n ds = Some (v1, r2)"
      "skip_ws r2 = 0x7D # r" "v = JObject (AList.update key v1 acc)"
  using assms by (auto split: option.splits list.splits if_splits)

lemma parse_value_cases:
  assumes "parse_value (Suc n) s = Some (v, r)"
  obtains (arr) cs d ds where "skip_ws s = 0x5B # cs" "skip_ws cs = d # ds" "d \<noteq> 0x5D"
      "parse_elements n [] (d # ds) = Some (v, r)"
    | (obj) cs d ds where "skip_ws s = 0x7B # cs" "skip_ws cs = d # ds" "d \<noteq> 0x7D"
      "parse_members n [] (d # ds) = Some (v, r)"
    | (leaf) "length r < length s" "\<And>k. parse_value (Suc k) s = Some (v, r)"
proof -
  obtain c cs where sk: "skip_ws s = c # cs"
    using assms by (cases "skip_ws s") simp_all
  have lcs: "length cs < length s"
    using sk by (rule skip_ws_Cons_length)
  have lsk: "length (c # cs) \<le> length s"
    using length_skip_ws [of s] sk by simp
  show ?thesis
  proof (cases "c = 0x5B")
    case True
    then obtain d ds where d: "skip_ws cs = d # ds"
      using assms sk by (cases "skip_ws cs") simp_all
    show ?thesis
    proof (cases "d = 0x5D")
      case True
      have "length ds < length cs"
        using d by (rule skip_ws_Cons_length)
      moreover have "parse_value (Suc k) s = Some (v, r)" for k
        using assms sk d True \<open>c = 0x5B\<close> by simp
      moreover have "r = ds"
        using assms sk d True \<open>c = 0x5B\<close> by simp
      ultimately show ?thesis
        using lcs by (intro leaf) simp_all
    next
      case False
      then show ?thesis
        using assms sk d True by (intro arr [of cs d ds]) simp_all
    qed
  next
    case not_arr: False
    show ?thesis
    proof (cases "c = 0x7B")
      case True
      then obtain d ds where d: "skip_ws cs = d # ds"
        using assms sk by (cases "skip_ws cs") simp_all
      show ?thesis
      proof (cases "d = 0x7D")
        case True
        have "length ds < length cs"
          using d by (rule skip_ws_Cons_length)
        moreover have "parse_value (Suc k) s = Some (v, r)" for k
          using assms sk d True \<open>c = 0x7B\<close> by simp
        moreover have "r = ds"
          using assms sk d True \<open>c = 0x7B\<close> by simp
        ultimately show ?thesis
          using lcs by (intro leaf) simp_all
      next
        case False
        then show ?thesis
          using assms sk d True by (intro obj [of cs d ds]) simp_all
      qed
    next
      case not_obj: False
      have same: "parse_value (Suc k) s = Some (v, r)" for k
      proof -
        have "parse_value (Suc k) s = parse_value (Suc n) s"
          using sk not_arr not_obj by simp
        then show ?thesis
          using assms by simp
      qed
      have "length r < length (c # cs)"
      proof (cases "c = 0x22")
        case True
        then obtain str where "parse_chars cs = Some (str, r)"
          using assms sk by auto
        then have "length r < length cs"
          by (rule parse_chars_consumes)
        then show ?thesis by simp
      next
        case False
        then consider w where "w \<noteq> []" "keyword w (c # cs) = Some r"
          | x where "scan_number (c # cs) = Some (x, r)"
          using assms sk not_arr not_obj by (auto split: if_splits)
        then show ?thesis
        proof cases
          case 1
          then show ?thesis by (rule keyword_consumes [rotated])
        next
          case 2
          then show ?thesis by (rule scan_number_consumes)
        qed
      qed
      then have "length r < length s"
        using lsk by simp
      then show ?thesis
        using same by (intro leaf)
    qed
  qed
qed

lemma enough_sub:
  assumes "enough s r (Suc k)" "length s' \<le> length s" "length r \<le> length r'"
    "length r' < length s'" "length s' < length s \<or> length r < length r'"
  shows "enough s' r' k"
  using assms unfolding enough_def by linarith

lemma enough_SucE:
  assumes "enough s r k" "length r < length s"
  obtains k' where "k = Suc k'"
  using assms by (cases k) (simp_all add: enough_def)

lemma fuel_enough:
  "(\<forall>s v r. parse_value m s = Some (v, r) \<longrightarrow>
      length r < length s \<and> (\<forall>k. enough s r k \<longrightarrow> parse_value k s = Some (v, r)))
   \<and> (\<forall>acc s v r. parse_elements m acc s = Some (v, r) \<longrightarrow>
      length r < length s \<and> (\<forall>k. enough s r k \<longrightarrow> parse_elements k acc s = Some (v, r)))
   \<and> (\<forall>acc s v r. parse_members m acc s = Some (v, r) \<longrightarrow>
      length r < length s \<and> (\<forall>k. enough s r k \<longrightarrow> parse_members k acc s = Some (v, r)))"
proof (induction m)
  case 0
  show ?case by simp
next
  case (Suc n)
  have IHv: "length r < length s" "enough s r k \<Longrightarrow> parse_value k s = Some (v, r)"
    if "parse_value n s = Some (v, r)" for s v r k
    using Suc.IH that by blast+
  have IHe: "length r < length s" "enough s r k \<Longrightarrow> parse_elements k acc s = Some (v, r)"
    if "parse_elements n acc s = Some (v, r)" for acc s v r k
    using Suc.IH that by blast+
  have IHm: "length r < length s" "enough s r k \<Longrightarrow> parse_members k acc s = Some (v, r)"
    if "parse_members n acc s = Some (v, r)" for acc s v r k
    using Suc.IH that by blast+
  have V: "length r < length s \<and> (\<forall>k. enough s r k \<longrightarrow> parse_value k s = Some (v, r))"
    if a: "parse_value (Suc n) s = Some (v, r)" for s v r
    using a
  proof (cases rule: parse_value_cases)
    case (arr cs d ds)
    have l1: "length cs < length s" "length (d # ds) \<le> length cs"
      using arr(1,2) skip_ws_Cons_length length_skip_ws [of cs] by simp_all
    have l2: "length r < length (d # ds)"
      using arr(4) by (rule IHe(1))
    have "parse_value k s = Some (v, r)" if k: "enough s r k" for k
    proof -
      obtain k' where k': "k = Suc k'"
        using k l1 l2 by (elim enough_SucE) simp
      have "enough (d # ds) r k'"
        using k [unfolded k'] by (rule enough_sub) (use l1 l2 in simp_all)
      then have "parse_elements k' [] (d # ds) = Some (v, r)"
        by (rule IHe(2) [OF arr(4)])
      then show ?thesis
        using arr(1-3) k' by simp
    qed
    then show ?thesis
      using l1 l2 by simp
  next
    case (obj cs d ds)
    have l1: "length cs < length s" "length (d # ds) \<le> length cs"
      using obj(1,2) skip_ws_Cons_length length_skip_ws [of cs] by simp_all
    have l2: "length r < length (d # ds)"
      using obj(4) by (rule IHm(1))
    have "parse_value k s = Some (v, r)" if k: "enough s r k" for k
    proof -
      obtain k' where k': "k = Suc k'"
        using k l1 l2 by (elim enough_SucE) simp
      have "enough (d # ds) r k'"
        using k [unfolded k'] by (rule enough_sub) (use l1 l2 in simp_all)
      then have "parse_members k' [] (d # ds) = Some (v, r)"
        by (rule IHm(2) [OF obj(4)])
      then show ?thesis
        using obj(1-3) k' by simp
    qed
    then show ?thesis
      using l1 l2 by simp
  next
    case leaf
    have "parse_value k s = Some (v, r)" if k: "enough s r k" for k
    proof -
      obtain k' where "k = Suc k'"
        using k leaf(1) by (elim enough_SucE)
      then show ?thesis
        using leaf(2) by simp
    qed
    then show ?thesis
      using leaf(1) by simp
  qed
  have E: "length r < length s \<and> (\<forall>k. enough s r k \<longrightarrow> parse_elements k acc s = Some (v, r))"
    if a: "parse_elements (Suc n) acc s = Some (v, r)" for acc s v r
    using a
  proof (cases rule: parse_elements_cases)
    case (more v1 r1 cs)
    have l1: "length r1 < length s"
      using more(1) by (rule IHv(1))
    have l2: "length cs < length r1"
      using more(2) by (rule skip_ws_Cons_length)
    have l3: "length r < length cs"
      using more(3) by (rule IHe(1))
    have "parse_elements k acc s = Some (v, r)" if k: "enough s r k" for k
    proof -
      obtain k' where k': "k = Suc k'"
        using k l1 l2 l3 by (elim enough_SucE) simp
      have e1: "enough s r1 k'"
        using k [unfolded k'] by (rule enough_sub) (use l1 l2 l3 in simp_all)
      have e2: "enough cs r k'"
        using k [unfolded k'] by (rule enough_sub) (use l1 l2 l3 in simp_all)
      have "parse_value k' s = Some (v1, r1)"
        by (rule IHv(2) [OF more(1) e1])
      moreover have "parse_elements k' (acc @ [v1]) cs = Some (v, r)"
        by (rule IHe(2) [OF more(3) e2])
      ultimately show ?thesis
        using more(2) k' by simp
    qed
    then show ?thesis
      using l1 l2 l3 by simp
  next
    case (last v1 r1)
    have l1: "length r1 < length s"
      using last(1) by (rule IHv(1))
    have l2: "length r < length r1"
      using last(2) by (rule skip_ws_Cons_length)
    have "parse_elements k acc s = Some (v, r)" if k: "enough s r k" for k
    proof -
      obtain k' where k': "k = Suc k'"
        using k l1 l2 by (elim enough_SucE) simp
      have "enough s r1 k'"
        using k [unfolded k'] by (rule enough_sub) (use l1 l2 in simp_all)
      then have "parse_value k' s = Some (v1, r1)"
        by (rule IHv(2) [OF last(1)])
      then show ?thesis
        using last(2,3) k' by simp
    qed
    then show ?thesis
      using l1 l2 by simp
  qed
  have M: "length r < length s \<and> (\<forall>k. enough s r k \<longrightarrow> parse_members k acc s = Some (v, r))"
    if a: "parse_members (Suc n) acc s = Some (v, r)" for acc s v r
    using a
  proof (cases rule: parse_members_cases)
    case (more cs key r1 ds v1 r2 es)
    have l: "length cs < length s" "length r1 < length cs" "length ds < length r1"
      "length r2 < length ds" "length es < length r2" "length r < length es"
      using more skip_ws_Cons_length parse_chars_consumes IHv(1) IHm(1) by blast+
    have "parse_members k acc s = Some (v, r)" if k: "enough s r k" for k
    proof -
      obtain k' where k': "k = Suc k'"
        using k l by (elim enough_SucE) simp
      have e1: "enough ds r2 k'"
        using k [unfolded k'] by (rule enough_sub) (use l in simp_all)
      have e2: "enough es r k'"
        using k [unfolded k'] by (rule enough_sub) (use l in simp_all)
      have "parse_value k' ds = Some (v1, r2)"
        by (rule IHv(2) [OF more(4) e1])
      moreover have "parse_members k' (AList.update key v1 acc) es = Some (v, r)"
        by (rule IHm(2) [OF more(6) e2])
      ultimately show ?thesis
        using more(1,2,3,5) k' by simp
    qed
    then show ?thesis
      using l by simp
  next
    case (last cs key r1 ds v1 r2)
    have l: "length cs < length s" "length r1 < length cs" "length ds < length r1"
      "length r2 < length ds" "length r < length r2"
      using last skip_ws_Cons_length parse_chars_consumes IHv(1) by blast+
    have "parse_members k acc s = Some (v, r)" if k: "enough s r k" for k
    proof -
      obtain k' where k': "k = Suc k'"
        using k l by (elim enough_SucE) simp
      have "enough ds r2 k'"
        using k [unfolded k'] by (rule enough_sub) (use l in simp_all)
      then have "parse_value k' ds = Some (v1, r2)"
        by (rule IHv(2) [OF last(4)])
      then show ?thesis
        using last(1,2,3,5,6) k' by simp
    qed
    then show ?thesis
      using l by simp
  qed
  show ?case
    using V E M by blast
qed

lemma enough_twice_length: "enough s r (2 * length s)"
  by (simp add: enough_def)

lemma JSON_parse_fuel:
  assumes "parse_value m s = Some (v, r)"
  shows "parse_value (2 * length s) s = Some (v, r)"
  using fuel_enough [of m] assms enough_twice_length by blast

text \<open>The two functions on concrete texts.\<close>

lemma JSON_stringify_example:
  "JSON_stringify [Budi] =
     js ''[{\"id\":\"1700000000500\",\"first_name\":\"Budi\",\"last_name\":\"\",\"email\":\"b@x.com\",\"age\":\"11\",\"grade\":\"5\"}]''"
  by code_simp

lemma JSON_parse_examples:
  "JSON_parse (js '' [ 1 , true ] '') = Some (JArray [JNumber (js ''1''), JBool True])"
  "JSON_parse (js ''{ \"a\" : \"b\", \"c\":null, \"a\":[false]}'') =
     Some (JObject [(js ''a'', JArray [JBool False]), (js ''c'', JNull)])"
  "JSON_parse [0x22, 0x5C, 0x75, 0x30, 0x30, 0x34, 0x31, 0x5C, 0x6E, 0x5C, 0x2F, 0x22] =
     Some (JString [0x41, 0x0A, 0x2F])"
  "JSON_parse (js ''[1,]'') = None"
  "JSON_parse (js ''01'') = None"
  "JSON_parse [] = None"
  by code_simp+

section \<open>Properties of saveStudent\<close>

lemma students_saveToStorage [simp]: "students (saveToStorage p data s) = students s"
  by (cases p) (simp_all add: saveToStorage_def console_error_def)

lemma editId_saveToStorage [simp]: "editId (saveToStorage p data s) = editId s"
  by (cases p) (simp_all add: saveToStorage_def console_error_def)

lemma alerts_saveToStorage [simp]: "alerts (saveToStorage p data s) = alerts s"
  by (cases p) (simp_all add: saveToStorage_def console_error_def)

lemma students_Alert_alert [simp]: "students (Alert_alert t m s) = students s"
  by (simp add: Alert_alert_def)

lemma editId_Alert_alert [simp]: "editId (Alert_alert t m s) = editId s"
  by (simp add: Alert_alert_def)

lemma alerts_Alert_alert [simp]: "alerts (Alert_alert t m s) = alerts s @ [(js t, js m)]"
  by (simp add: Alert_alert_def)

lemma AsyncStorage_Alert_alert [simp]: "AsyncStorage (Alert_alert t m s) = AsyncStorage s"
  by (simp add: Alert_alert_def)

lemmas handler_defs = saveStudent_def Alert_alert_def saveToStorage_def console_error_def

lemma map_replace_unmatched:
  "eid \<notin> id_s ` set xs \<Longrightarrow> map (\<lambda>st. if id_s st = eid then r else st) xs = xs"
  by (induction xs) auto

lemma replaced_record:
  "r \<in> set (map (\<lambda>st. if id_s st = eid then new else st) xs) \<Longrightarrow> id_s r = eid \<Longrightarrow> r = new"
  by (auto split: if_splits)

lemma AsyncStorage_mount [simp]: "AsyncStorage (mount d) = AsyncStorage d"
  by (simp add: mount_def)

lemma AsyncStorage_saveToStorage_Resolves:
  "AsyncStorage (saveToStorage Resolves data d) (js ''students'') = Some (JSON_stringify data)"
  by (simp add: saveToStorage_def)

section \<open>The ids of the list along a run\<close>

lemma digit_inject_all:
  "list_all (\<lambda>d. list_all (\<lambda>e. digit d = digit e \<longrightarrow> d = e) [0..<10]) [0..<10]"
  by code_simp

lemma digit_inject: "d < 10 \<Longrightarrow> e < 10 \<Longrightarrow> digit d = digit e \<Longrightarrow> d = e"
  using digit_inject_all by (simp add: list_all_iff)

lemma decimal_not_Nil: "decimal n \<noteq> []"
  by (subst decimal.simps) simp

lemma decimal_inject: "decimal m = decimal n \<Longrightarrow> m = n"
proof (induction m arbitrary: n rule: decimal.induct)
  case (1 m)
  show ?case
  proof (cases "m < 10")
    case True
    then have m: "decimal m = [digit m]"
      by (subst decimal.simps) simp
    show ?thesis
    proof (cases "n < 10")
      case n: True
      then have "decimal n = [digit n]"
        by (subst decimal.simps) simp
      with m "1.prems" True n show ?thesis
        by (simp add: digit_inject)
    next
      case n: False
      then have "decimal n = decimal (n div 10) @ [digit (n mod 10)]"
        by (subst decimal.simps) simp
      with m "1.prems" decimal_not_Nil [of "n div 10"] show ?thesis
        by simp
    qed
  next
    case False
    then have m: "decimal m = decimal (m div 10) @ [digit (m mod 10)]"
      by (subst decimal.simps) simp
    show ?thesis
    proof (cases "n < 10")
      case n: True
      then have "decimal n = [digit n]"
        by (subst decimal.simps) simp
      with m "1.prems" decimal_not_Nil [of "m div 10"] show ?thesis
        by simp
    next
      case n: False
      then have "decimal n = decimal (n div 10) @ [digit (n mod 10)]"
        by (subst decimal.simps) simp
      with m "1.prems" have "decimal (m div 10) = decimal (n div 10)"
        and d: "digit (m mod 10) = digit (n mod 10)"
        by simp_all
      then have "m div 10 = n div 10"
        using "1.IH" False by blast
      moreover have "m mod 10 = n mod 10"
        using d by (intro digit_inject) simp_all
      ultimately show ?thesis
        by (metis div_mult_mod_eq)
    qed
  qed
qed

lemma ids_saveStudent:
  "map id_s (students (saveStudent now setItem s)) =
     (if name s = [] \<or> email s = [] \<or> age s = [] \<or> grade s = [] then map id_s (students s)
      else case truthy (editId s) of
             Some eid \<Rightarrow> map id_s (students s)
           | None \<Rightarrow> map id_s (students s) @ [Date_now_toString now])"
  by (cases setItem; cases "truthy (editId s)") (simp_all add: handler_defs comp_def)

lemma ids_deleteStudent:
  "map id_s (students (deleteStudent i pressed setItem s)) =
     (case pressed of
        Batal \<Rightarrow> map id_s (students s)
      | Hapus \<Rightarrow> filter (\<lambda>j. j \<noteq> i) (map id_s (students s)))"
  by (cases setItem; cases pressed)
    (simp_all add: deleteStudent_def handler_defs Let_def filter_map comp_def)

lemma students_step_other:
  "(\<forall>now setItem. e \<noteq> PressSave now setItem) \<Longrightarrow>
   (\<forall>i pressed setItem. e \<noteq> PressDelete i pressed setItem) \<Longrightarrow>
   students (step e s) = students s"
  by (cases e) (simp_all add: editStudent_def viewStudent_def)

lemma stamped_before_mono: "stamped_before t s \<Longrightarrow> t \<le> t' \<Longrightarrow> stamped_before t' s"
  unfolding stamped_before_def by (meson order_less_le_trans)

lemma stamped_before_ids:
  "stamped_before t s \<Longrightarrow> map id_s (students s') = map id_s (students s) \<Longrightarrow>
   stamped_before t s'"
  by (simp add: stamped_before_def)

lemma stamped_before_saveStudent:
  assumes "stamped_before t s" "t \<le> now"
  shows "stamped_before (Suc now) (saveStudent now setItem s)"
proof (cases "map id_s (students (saveStudent now setItem s)) = map id_s (students s)")
  case True
  then show ?thesis
    using assms stamped_before_ids stamped_before_mono
    by (meson le_SucI)
next
  case False
  then have ids: "map id_s (students (saveStudent now setItem s)) =
      map id_s (students s) @ [Date_now_toString now]"
    by (simp add: ids_saveStudent split: if_splits option.splits)
  have fresh: "Date_now_toString now \<notin> set (map id_s (students s))"
  proof
    assume "Date_now_toString now \<in> set (map id_s (students s))"
    then obtain u where u: "u < t" "Date_now_toString now = Date_now_toString u"
      using assms(1) unfolding stamped_before_def by blast
    from u(2) have "decimal now = decimal u"
      by (simp add: Date_now_toString_def)
    then have "now = u"
      by (rule decimal_inject)
    with u(1) assms(2) show False
      by simp
  qed
  have cover: "\<exists>u<Suc now. j = Date_now_toString u"
    if "j \<in> set (map id_s (students s) @ [Date_now_toString now])" for j
  proof (cases "j = Date_now_toString now")
    case True
    then show ?thesis by blast
  next
    case False
    with that have "j \<in> set (map id_s (students s))" by simp
    then obtain u where u: "u < t" "j = Date_now_toString u"
      using assms(1) unfolding stamped_before_def by blast
    from u(1) assms(2) have "u < Suc now"
      by simp
    with u(2) show ?thesis
      by blast
  qed
  have dist: "distinct (map id_s (students s) @ [Date_now_toString now])"
    using assms(1) fresh by (simp add: stamped_before_def)
  show ?thesis
    unfolding stamped_before_def ids using dist cover by blast
qed

lemma stamped_before_deleteStudent:
  assumes "stamped_before t s"
  shows "stamped_before t (deleteStudent i pressed setItem s)"
proof (cases pressed)
  case Batal
  then show ?thesis
    using assms by (simp add: stamped_before_def ids_deleteStudent)
next
  case Hapus
  have ids: "map id_s (students (deleteStudent i pressed setItem s)) =
      filter (\<lambda>j. j \<noteq> i) (map id_s (students s))"
    by (simp add: ids_deleteStudent Hapus)
  have "distinct (filter (\<lambda>j. j \<noteq> i) (map id_s (students s)))"
    using assms by (simp add: stamped_before_def)
  moreover have "\<exists>u<t. j = Date_now_toString u"
    if "j \<in> set (filter (\<lambda>j. j \<noteq> i) (map id_s (students s)))" for j
  proof -
    from that have "j \<in> set (map id_s (students s))"
      by simp
    then show ?thesis
      using assms unfolding stamped_before_def by blast
  qed
  ultimately show ?thesis
    unfolding stamped_before_def ids by blast
qed

lemma stamped_before_step:
  assumes "clock_increasing t (e # es)" "stamped_before t s"
  shows "\<exists>t'. clock_increasing t' es \<and> stamped_before t' (step e s)"
proof (cases e)
  case (PressSave now setItem)
  with assms(1) have "t \<le> now" "clock_increasing (Suc now) es"
    by simp_all
  moreover from this assms(2) have "stamped_before (Suc now) (step e s)"
    by (simp add: PressSave stamped_before_saveStudent)
  ultimately show ?thesis
    by blast
next
  case (PressDelete i pressed setItem)
  with assms have "clock_increasing t es" "stamped_before t (step e s)"
    by (simp_all add: stamped_before_deleteStudent)
  then show ?thesis
    by blast
next
  case (SetName v)
  with assms have "clock_increasing t es" "stamped_before t (step e s)"
    by (simp_all add: stamped_before_def)
  then show ?thesis by blast
next
  case (SetEmail v)
  with assms have "clock_increasing t es" "stamped_before t (step e s)"
    by (simp_all add: stamped_before_def)
  then show ?thesis by blast
next
  case (SetAge v)
  with assms have "clock_increasing t es" "stamped_before t (step e s)"
    by (simp_all add: stamped_before_def)
  then show ?thesis by blast
next
  case (SetGrade v)
  with assms have "clock_increasing t es" "stamped_before t (step e s)"
    by (simp_all add: stamped_before_def)
  then show ?thesis by blast
next
  case (PressEdit i)
  with assms have "clock_increasing t es" "stamped_before t (step e s)"
    by (simp_all add: stamped_before_def editStudent_def)
  then show ?thesis by blast
next
  case (PressView i)
  with assms have "clock_increasing t es" "stamped_before t (step e s)"
    by (simp_all add: stamped_before_def viewStudent_def)
  then show ?thesis by blast
next
  case PressTutup
  with assms have "clock_increasing t es" "stamped_before t (step e s)"
    by (simp_all add: stamped_before_def)
  then show ?thesis by blast
qed

lemma stamped_before_run:
  "clock_increasing t es \<Longrightarrow> stamped_before t s \<Longrightarrow> \<exists>t'. stamped_before t' (run es s)"
proof (induction es arbitrary: t s)
  case Nil
  then show ?case by auto
next
  case (Cons e es)
  from stamped_before_step [OF Cons.prems]
  obtain t' where "clock_increasing t' es" "stamped_before t' (step e s)"
    by blast
  then have "\<exists>t''. stamped_before t'' (run es (step e s))"
    by (rule Cons.IH)
  then show ?case
    by simp
qed

lemma stamped_before_mount: "stamped_before t (mount d)"
  by (simp add: stamped_before_def mount_def)

section \<open>The claims\<close>

text \<open>
  Claim C1 (every failed login is reported). \<open>handleLogin\<close> reports a call that rejects,
  in its \<open>catch\<close> block, but a response that resolves without a token falls through the
  \<open>if\<close> that has no \<open>else\<close>: for a non-empty email and password, a status 200 and a body
  without a \<open>token\<close> property, the handler returns the device as it was. No dialog is shown,
  and the login screen stays.
\<close>

theorem handleLogin_missing_token_silent:
  "handleLogin (js ''eve.holt@reqres.in'') (js ''cityslicka'') (Response 200 (Data None)) d = d"
  by (simp add: handleLogin_def axios_post_def truthy_def js_def)

text \<open>
  Claim C2. When at least one of the four inputs (name, email, age, grade) is empty,
  \<open>saveStudent\<close> shows the validation dialog and does nothing else: the resulting state is
  the given one with that dialog added, so the list of records (and its length), the
  four inputs, \<open>editId\<close> and the stored item are unchanged.
\<close>

theorem saveStudent_empty_field_rejected:
  assumes "name s = [] \<or> email s = [] \<or> age s = [] \<or> grade s = []"
  shows "saveStudent now setItem s =
           s\<lparr>alerts := alerts s @ [(js ''Error'', js ''Semua kolom harus diisi!'')]\<rparr>
       \<and> students (saveStudent now setItem s) = students s
       \<and> length (students (saveStudent now setItem s)) = length (students s)
       \<and> name (saveStudent now setItem s) = name s
       \<and> email (saveStudent now setItem s) = email s
       \<and> age (saveStudent now setItem s) = age s
       \<and> grade (saveStudent now setItem s) = grade s
       \<and> editId (saveStudent now setItem s) = editId s
       \<and> AsyncStorage (saveStudent now setItem s) = AsyncStorage s"
  using assms by (simp add: saveStudent_def Alert_alert_def)

theorem saveStudent_empty_field_rejected_witness:
  "(name (filled_form\<lparr>age := []\<rparr>) = [] \<or> email (filled_form\<lparr>age := []\<rparr>) = []
      \<or> age (filled_form\<lparr>age := []\<rparr>) = [] \<or> grade (filled_form\<lparr>age := []\<rparr>) = [])
   \<and> students (saveStudent 1700000001000 Resolves (filled_form\<lparr>age := []\<rparr>)) = [Ann, Budi]
   \<and> name (saveStudent 1700000001000 Resolves (filled_form\<lparr>age := []\<rparr>)) = js ''Cici''
   \<and> alerts (saveStudent 1700000001000 Resolves (filled_form\<lparr>age := []\<rparr>)) =
         [(js ''Error'', js ''Semua kolom harus diisi!'')]"
  using saveStudent_empty_field_rejected [of "filled_form\<lparr>age := []\<rparr>" 1700000001000 Resolves]
  by (simp add: filled_form_def mount_def device0_def)

text \<open>
  Claim C3. With the four inputs non-empty and \<open>editId\<close> unset (\<open>null\<close>, or the empty
  string, which \<open>if (editId)\<close> treats alike), \<open>saveStudent\<close> appends exactly one record at
  the end: the length grows by one, every earlier record stays at its index, the new
  record carries the clock reading as its id and the inputs as its fields, and the four
  inputs are reset to the empty string. The list written to storage is the new one.
\<close>

theorem saveStudent_add_appends:
  assumes "name s \<noteq> []" "email s \<noteq> []" "age s \<noteq> []" "grade s \<noteq> []"
    and "truthy (editId s) = None"
  shows "students (saveStudent now setItem s) =
           students s @ [\<lparr>id_s = Date_now_toString now, first_name = name s, last_name = [],
                          email_s = email s, age_s = age s, grade_s = grade s\<rparr>]
       \<and> length (students (saveStudent now setItem s)) = Suc (length (students s))
       \<and> (\<forall>i<length (students s). students (saveStudent now setItem s) ! i = students s ! i)
       \<and> name (saveStudent now setItem s) = []
       \<and> email (saveStudent now setItem s) = []
       \<and> age (saveStudent now setItem s) = []
       \<and> grade (saveStudent now setItem s) = []
       \<and> editId (saveStudent now setItem s) = editId s
       \<and> AsyncStorage (saveStudent now setItem s) =
           (case setItem of
              Resolves \<Rightarrow> (AsyncStorage s)(js ''students'' \<mapsto>
                            JSON_stringify (students (saveStudent now setItem s)))
            | Rejects \<Rightarrow> AsyncStorage s)"
  using assms by (cases setItem) (simp_all add: handler_defs nth_append)

theorem saveStudent_add_appends_witness:
  "name filled_form \<noteq> [] \<and> email filled_form \<noteq> [] \<and> age filled_form \<noteq> []
   \<and> grade filled_form \<noteq> [] \<and> truthy (editId filled_form) = None
   \<and> students (saveStudent 1700000001000 Resolves filled_form) =
        [Ann, Budi, \<lparr>id_s = Date_now_toString 1700000001000, first_name = js ''Cici'',
                     last_name = [], email_s = js ''c@x.com'', age_s = js ''12'',
                     grade_s = js ''6''\<rparr>]
   \<and> name (saveStudent 1700000001000 Resolves filled_form) = []"
  using saveStudent_add_appends [of filled_form 1700000001000 Resolves]
  by (simp add: filled_form_def mount_def device0_def truthy_def js_def)

text \<open>
  Claim C4. With the four inputs non-empty and \<open>editId\<close> set to the id of a record of the
  list, \<open>saveStudent\<close> keeps the length of the list, puts at every index whose record has
  that id the record with the same id and the inputs as fields, keeps every other record
  at its index, keeps the sequence of ids, and clears \<open>editId\<close>. (\<open>editId\<close> is set when
  \<open>if (editId)\<close> succeeds: it holds a non-empty string.)
\<close>

theorem saveStudent_edit_replaces:
  assumes "name s \<noteq> []" "email s \<noteq> []" "age s \<noteq> []" "grade s \<noteq> []"
    and "editId s = Some eid" "eid \<noteq> []" "eid \<in> id_s ` set (students s)"
  shows "length (students (saveStudent now setItem s)) = length (students s)
       \<and> (\<forall>i<length (students s).
             students (saveStudent now setItem s) ! i =
               (if id_s (students s ! i) = eid
                then \<lparr>id_s = eid, first_name = name s, last_name = [],
                      email_s = email s, age_s = age s, grade_s = grade s\<rparr>
                else students s ! i))
       \<and> map id_s (students (saveStudent now setItem s)) = map id_s (students s)
       \<and> eid \<in> id_s ` set (students (saveStudent now setItem s))
       \<and> editId (saveStudent now setItem s) = None"
proof -
  have ids: "map id_s (students (saveStudent now setItem s)) = map id_s (students s)"
    using assms(1-6) by (cases setItem) (simp_all add: handler_defs truthy_def)
  have "id_s ` set (students (saveStudent now setItem s)) = id_s ` set (students s)"
    using arg_cong [OF ids, of set] by simp
  then show ?thesis
    using assms ids by (cases setItem) (simp_all add: handler_defs truthy_def)
qed

theorem saveStudent_edit_replaces_witness:
  "editId ((editStudent Ann filled_form)\<lparr>grade := js ''6''\<rparr>) = Some (js ''1700000000000'')
   \<and> js ''1700000000000'' \<in> id_s ` set (students ((editStudent Ann filled_form)\<lparr>grade := js ''6''\<rparr>))
   \<and> length (students (saveStudent 1700000001000 Resolves
          ((editStudent Ann filled_form)\<lparr>grade := js ''6''\<rparr>))) = 2
   \<and> students (saveStudent 1700000001000 Resolves
          ((editStudent Ann filled_form)\<lparr>grade := js ''6''\<rparr>)) ! 0 =
        \<lparr>id_s = js ''1700000000000'', first_name = js ''Ann'', last_name = [],
          email_s = js ''a@x.com'', age_s = js ''10'', grade_s = js ''6''\<rparr>
   \<and> students (saveStudent 1700000001000 Resolves
          ((editStudent Ann filled_form)\<lparr>grade := js ''6''\<rparr>)) ! 1 = Budi
   \<and> editId (saveStudent 1700000001000 Resolves
          ((editStudent Ann filled_form)\<lparr>grade := js ''6''\<rparr>)) = None"
  using saveStudent_edit_replaces
    [of "(editStudent Ann filled_form)\<lparr>grade := js ''6''\<rparr>" "js ''1700000000000''"
        1700000001000 Resolves]
  by (simp add: filled_form_def mount_def device0_def editStudent_def Ann_def Budi_def js_def)

text \<open>
  Claim C5. For every list of records, \<open>saveToStorage\<close> followed by \<open>loadStudents\<close>, both
  calls of AsyncStorage resolving, sets the list of the screen to those records: on the
  screen mounted anew on the device that holds the written item, and on the screen that
  did the write. \<open>JSON.parse\<close> of \<open>JSON.stringify\<close> of the records, read as a Student array,
  is the records.
\<close>

theorem persist_then_load_round_trip:
  "loadStudents Resolves (mount (saveToStorage Resolves records d)) =
     Inr ((mount (saveToStorage Resolves records d))\<lparr>students := records\<rparr>)
   \<and> loadStudents Resolves (saveToStorage Resolves records s) =
     Inr ((saveToStorage Resolves records s)\<lparr>students := records\<rparr>)
   \<and> Option.bind (JSON_parse (JSON_stringify records)) as_Students = Some records"
  by (simp add: loadStudents_stored AsyncStorage_saveToStorage_Resolves
        JSON_parse_JSON_stringify as_Students_Student_json)

text \<open>
  Claim C6. The callback of \<open>deleteStudent\<close> (the user pressed "Hapus") replaces the list
  by the records whose id is not the given one, in their order; when no record has the id,
  the list is unchanged; and when the write resolves, the screen mounted anew on the device
  loads exactly the filtered list, in which no record has the removed id.
\<close>

theorem deleteStudent_removes:
  "students (deleteStudent i Hapus setItem s) = filter (\<lambda>student. id_s student \<noteq> i) (students s)
   \<and> (i \<notin> id_s ` set (students s) \<longrightarrow> students (deleteStudent i Hapus setItem s) = students s)
   \<and> loadStudents Resolves (mount (deleteStudent i Hapus Resolves s)) =
       Inr ((mount (deleteStudent i Hapus Resolves s))
              \<lparr>students := filter (\<lambda>student. id_s student \<noteq> i) (students s)\<rparr>)
   \<and> i \<notin> id_s ` set (filter (\<lambda>student. id_s student \<noteq> i) (students s))"
proof -
  have st: "students (deleteStudent i Hapus setItem s) =
            filter (\<lambda>student. id_s student \<noteq> i) (students s)"
    by (cases setItem) (simp_all add: deleteStudent_def handler_defs Let_def)
  have unchanged: "filter (\<lambda>student. id_s student \<noteq> i) (students s) = students s"
    if "i \<notin> id_s ` set (students s)"
    using that by (intro filter_True) auto
  have "AsyncStorage (deleteStudent i Hapus Resolves s) (js ''students'') =
        Some (JSON_stringify (filter (\<lambda>student. id_s student \<noteq> i) (students s)))"
    by (simp add: deleteStudent_def handler_defs Let_def)
  then have "loadStudents Resolves (mount (deleteStudent i Hapus Resolves s)) =
       Inr ((mount (deleteStudent i Hapus Resolves s))
              \<lparr>students := filter (\<lambda>student. id_s student \<noteq> i) (students s)\<rparr>)"
    by (intro loadStudents_stored) simp
  then show ?thesis
    using st unchanged by auto
qed

theorem deleteStudent_removes_witness:
  "js ''42'' \<notin> id_s ` set (students filled_form)
   \<and> students (deleteStudent (js ''42'') Hapus Resolves filled_form) = students filled_form
   \<and> students (deleteStudent (id_s Ann) Hapus Resolves filled_form) = [Budi]"
proof -
  have "js ''42'' \<notin> id_s ` set (students filled_form)"
    by (simp add: filled_form_def Ann_def Budi_def js_def)
  moreover from this deleteStudent_removes [of "js ''42''" Resolves filled_form]
  have "students (deleteStudent (js ''42'') Hapus Resolves filled_form) = students filled_form"
    by blast
  moreover from deleteStudent_removes [of "id_s Ann" Resolves filled_form]
  have "students (deleteStudent (id_s Ann) Hapus Resolves filled_form) = [Budi]"
    by (simp add: filled_form_def Ann_def Budi_def js_def)
  ultimately show ?thesis by simp
qed

text \<open>
  Claim C7. With the four inputs non-empty and \<open>editId\<close> set to a string that is the id of
  no record, \<open>saveStudent\<close> leaves the list of records as it is, and the only dialog it
  shows is the one that reports success: no error is signalled.
\<close>

theorem saveStudent_edit_unmatched_unchanged:
  assumes "name s \<noteq> []" "email s \<noteq> []" "age s \<noteq> []" "grade s \<noteq> []"
    and "editId s = Some eid" "eid \<noteq> []" "eid \<notin> id_s ` set (students s)"
  shows "students (saveStudent now setItem s) = students s
       \<and> alerts (saveStudent now setItem s) =
           alerts s @ [(js ''Sukses'', js ''Data siswa berhasil diperbarui!'')]"
  using assms by (cases setItem) (simp_all add: handler_defs truthy_def map_replace_unmatched)

theorem saveStudent_edit_unmatched_unchanged_witness:
  "editId (filled_form\<lparr>editId := Some (js ''42'')\<rparr>) = Some (js ''42'')
   \<and> js ''42'' \<notin> id_s ` set (students (filled_form\<lparr>editId := Some (js ''42'')\<rparr>))
   \<and> students (saveStudent 1700000001000 Resolves (filled_form\<lparr>editId := Some (js ''42'')\<rparr>)) =
        [Ann, Budi]
   \<and> alerts (saveStudent 1700000001000 Resolves (filled_form\<lparr>editId := Some (js ''42'')\<rparr>)) =
        [(js ''Sukses'', js ''Data siswa berhasil diperbarui!'')]"
  using saveStudent_edit_unmatched_unchanged
    [of "filled_form\<lparr>editId := Some (js ''42'')\<rparr>" "js ''42''" 1700000001000 Resolves]
  by (simp add: filled_form_def mount_def device0_def Ann_def Budi_def js_def)

text \<open>
  Claim C8, as amended. The id of a new record is \<open>Date.now().toString()\<close> and nothing
  compares it with the ids in the list, so two saves that read the same clock value give
  two records with one id. When the clock readings of
  the saves of a run are strictly increasing, the ids of the list reached from the empty
  list are pairwise different and each is the decimal string of a clock reading. In every
  state, \<open>saveStudent\<close> keeps the sequence of ids (validation failure, edit) or appends the
  clock reading to it (add), \<open>deleteStudent\<close> keeps it or removes the given id from it, and
  \<open>editStudent\<close> and \<open>viewStudent\<close> keep the list: no id of a record is ever changed.
\<close>

theorem ids_unique_under_increasing_clock:
  assumes "clock_increasing t es"
  shows "distinct (map id_s (students (run es (mount d))))
       \<and> (\<forall>r\<in>set (students (run es (mount d))). \<exists>u. id_s r = Date_now_toString u)
       \<and> map id_s (students (saveStudent now setItem s)) =
           (if name s = [] \<or> email s = [] \<or> age s = [] \<or> grade s = []
            then map id_s (students s)
            else case truthy (editId s) of
                   Some eid \<Rightarrow> map id_s (students s)
                 | None \<Rightarrow> map id_s (students s) @ [Date_now_toString now])
       \<and> map id_s (students (deleteStudent i pressed setItem s)) =
           (case pressed of
              Batal \<Rightarrow> map id_s (students s)
            | Hapus \<Rightarrow> filter (\<lambda>j. j \<noteq> i) (map id_s (students s)))
       \<and> students (editStudent student s) = students s
       \<and> students (viewStudent student s) = students s"
proof -
  from stamped_before_run [OF assms stamped_before_mount]
  obtain t' where "stamped_before t' (run es (mount d))"
    by blast
  then have "distinct (map id_s (students (run es (mount d))))"
    and "\<forall>r\<in>set (students (run es (mount d))). \<exists>u. id_s r = Date_now_toString u"
    unfolding stamped_before_def by auto
  then show ?thesis
    by (simp add: ids_saveStudent ids_deleteStudent editStudent_def viewStudent_def)
qed

theorem ids_unique_under_increasing_clock_witness:
  "clock_increasing 0
     [SetName (js ''Ann''), SetEmail (js ''a@x.com''), SetAge (js ''10''), SetGrade (js ''5''),
      PressSave 1700000000000 Resolves,
      SetName (js ''Budi''), SetEmail (js ''b@x.com''), SetAge (js ''11''), SetGrade (js ''5''),
      PressSave 1700000000001 Resolves]
   \<and> length (students (run
     [SetName (js ''Ann''), SetEmail (js ''a@x.com''), SetAge (js ''10''), SetGrade (js ''5''),
      PressSave 1700000000000 Resolves,
      SetName (js ''Budi''), SetEmail (js ''b@x.com''), SetAge (js ''11''), SetGrade (js ''5''),
      PressSave 1700000000001 Resolves] (mount device0))) = 2
   \<and> distinct (map id_s (students (run
     [SetName (js ''Ann''), SetEmail (js ''a@x.com''), SetAge (js ''10''), SetGrade (js ''5''),
      PressSave 1700000000000 Resolves,
      SetName (js ''Budi''), SetEmail (js ''b@x.com''), SetAge (js ''11''), SetGrade (js ''5''),
      PressSave 1700000000001 Resolves] (mount device0))))"
proof -
  let ?es = "[SetName (js ''Ann''), SetEmail (js ''a@x.com''), SetAge (js ''10''), SetGrade (js ''5''),
      PressSave 1700000000000 Resolves,
      SetName (js ''Budi''), SetEmail (js ''b@x.com''), SetAge (js ''11''), SetGrade (js ''5''),
      PressSave 1700000000001 Resolves]"
  have clock: "clock_increasing 0 ?es"
    by simp
  have len: "length (students (run ?es (mount device0))) = 2"
    by (simp add: handler_defs mount_def device0_def truthy_def js_def)
  from ids_unique_under_increasing_clock [OF clock, of device0]
  have "distinct (map id_s (students (run ?es (mount device0))))"
    by blast
  with clock len show ?thesis
    by blast
qed

text \<open>
  The counterexample to claim C8 as stated: two records are added from the empty list, and
  both presses of the save button read the clock value 1700000000000 (the wall clock was
  set back in between, or stood still). The list then holds two records with the same id.
\<close>

theorem duplicate_ids_counterexample:
  "\<not> distinct (map id_s (students (run
     [SetName (js ''Ann''), SetEmail (js ''a@x.com''), SetAge (js ''10''), SetGrade (js ''5''),
      PressSave 1700000000000 Resolves,
      SetName (js ''Budi''), SetEmail (js ''b@x.com''), SetAge (js ''11''), SetGrade (js ''5''),
      PressSave 1700000000000 Resolves] (mount device0))))"
  by (simp add: handler_defs mount_def device0_def truthy_def js_def)

text \<open>
  Claim C9. Every record that \<open>saveStudent\<close> writes has the empty string as
  \<open>last_name\<close>: in the edit branch every record of the new list with the edited id, in the
  add branch the appended record; and every record of the new list either is the old
  record at the same index or has an empty \<open>last_name\<close>. The witness edits a record whose
  stored \<open>last_name\<close> was not empty.
\<close>

theorem saveStudent_last_name_empty:
  assumes "name s \<noteq> []" "email s \<noteq> []" "age s \<noteq> []" "grade s \<noteq> []"
  shows "(\<forall>eid. truthy (editId s) = Some eid \<longrightarrow>
            (\<forall>r\<in>set (students (saveStudent now setItem s)). id_s r = eid \<longrightarrow> last_name r = []))
       \<and> (truthy (editId s) = None \<longrightarrow>
            last_name (last (students (saveStudent now setItem s))) = [])
       \<and> (\<forall>i<length (students (saveStudent now setItem s)).
             (i < length (students s) \<and> students (saveStudent now setItem s) ! i = students s ! i)
             \<or> last_name (students (saveStudent now setItem s) ! i) = [])"
proof (cases "truthy (editId s)")
  case None
  then show ?thesis
    using assms by (cases setItem) (auto simp: handler_defs nth_append)
next
  case (Some eid)
  let ?new = "\<lparr>id_s = eid, first_name = name s, last_name = [],
               email_s = email s, age_s = age s, grade_s = grade s\<rparr>"
  have st: "students (saveStudent now setItem s) =
            map (\<lambda>st. if id_s st = eid then ?new else st) (students s)"
    using assms Some by (cases setItem) (simp_all add: handler_defs)
  have "last_name r = []" if "r \<in> set (students (saveStudent now setItem s))" "id_s r = eid" for r
  proof -
    from that have "r = ?new"
      unfolding st by (rule replaced_record)
    then show ?thesis
      by (metis Student.select_convs(3))
  qed
  moreover have "(i < length (students s) \<and> students (saveStudent now setItem s) ! i = students s ! i)
             \<or> last_name (students (saveStudent now setItem s) ! i) = []"
    if "i < length (students (saveStudent now setItem s))" for i
    using that unfolding st by simp
  ultimately show ?thesis
    using Some by simp
qed

theorem saveStudent_last_name_empty_witness:
  "last_name Ann = js ''Lee''
   \<and> students (editStudent Ann filled_form) ! 0 = Ann
   \<and> last_name (students (saveStudent 1700000001000 Resolves (editStudent Ann filled_form)) ! 0) = []"
proof -
  let ?s = "editStudent Ann filled_form"
  have hyps: "name ?s \<noteq> []" "email ?s \<noteq> []" "age ?s \<noteq> []" "grade ?s \<noteq> []"
    by (simp_all add: filled_form_def mount_def editStudent_def Ann_def js_def)
  have len: "0 < length (students (saveStudent 1700000001000 Resolves ?s))"
    by (simp add: filled_form_def mount_def device0_def editStudent_def Ann_def js_def
          handler_defs truthy_def)
  have old: "students ?s ! 0 = Ann" "last_name Ann = js ''Lee''"
    by (simp_all add: filled_form_def editStudent_def Ann_def)
  have changed: "students (saveStudent 1700000001000 Resolves ?s) ! 0 \<noteq> students ?s ! 0"
    by (simp add: filled_form_def mount_def device0_def editStudent_def Ann_def js_def
          handler_defs truthy_def)
  from saveStudent_last_name_empty [OF hyps, of 1700000001000 Resolves] len changed
  have "last_name (students (saveStudent 1700000001000 Resolves ?s) ! 0) = []"
    by blast
  then show ?thesis
    using old by simp
qed

text \<open>
  Claim C10. With the four inputs non-empty and \<open>editId\<close> set to a string that is the id
  of no record, \<open>saveStudent\<close> still makes the whole transition back to the add mode: it
  clears \<open>editId\<close>, resets the four inputs, shows the success dialog and calls
  \<open>saveToStorage\<close> with the unchanged list, which replaces the stored item by the
  serialized list when the write resolves.
\<close>

theorem saveStudent_edit_unmatched_transition:
  assumes "name s \<noteq> []" "email s \<noteq> []" "age s \<noteq> []" "grade s \<noteq> []"
    and "editId s = Some eid" "eid \<noteq> []" "eid \<notin> id_s ` set (students s)"
  shows "saveStudent now setItem s =
           (saveToStorage setItem (students s)
              (Alert_alert ''Sukses'' ''Data siswa berhasil diperbarui!'' (s\<lparr>editId := None\<rparr>)))
             \<lparr>name := [], email := [], age := [], grade := []\<rparr>
       \<and> editId (saveStudent now setItem s) = None
       \<and> name (saveStudent now setItem s) = []
       \<and> email (saveStudent now setItem s) = []
       \<and> age (saveStudent now setItem s) = []
       \<and> grade (saveStudent now setItem s) = []
       \<and> alerts (saveStudent now setItem s) =
           alerts s @ [(js ''Sukses'', js ''Data siswa berhasil diperbarui!'')]
       \<and> students (saveStudent now setItem s) = students s
       \<and> AsyncStorage (saveStudent now setItem s) =
           (case setItem of
              Resolves \<Rightarrow> (AsyncStorage s)(js ''students'' \<mapsto> JSON_stringify (students s))
            | Rejects \<Rightarrow> AsyncStorage s)"
  using assms by (cases setItem) (simp_all add: handler_defs truthy_def map_replace_unmatched)

theorem saveStudent_edit_unmatched_transition_witness:
  "editId (filled_form\<lparr>editId := Some (js ''42'')\<rparr>) = Some (js ''42'')
   \<and> js ''42'' \<notin> id_s ` set (students (filled_form\<lparr>editId := Some (js ''42'')\<rparr>))
   \<and> editId (saveStudent 1700000001000 Resolves (filled_form\<lparr>editId := Some (js ''42'')\<rparr>)) = None
   \<and> name (saveStudent 1700000001000 Resolves (filled_form\<lparr>editId := Some (js ''42'')\<rparr>)) = []
   \<and> AsyncStorage (saveStudent 1700000001000 Resolves (filled_form\<lparr>editId := Some (js ''42'')\<rparr>))
        (js ''students'') = Some (JSON_stringify [Ann, Budi])"
proof -
  let ?s = "filled_form\<lparr>editId := Some (js ''42'')\<rparr>"
  have hyps: "name ?s \<noteq> []" "email ?s \<noteq> []" "age ?s \<noteq> []" "grade ?s \<noteq> []"
    "editId ?s = Some (js ''42'')" "js ''42'' \<noteq> []" "js ''42'' \<notin> id_s ` set (students ?s)"
    by (simp_all add: filled_form_def mount_def device0_def Ann_def Budi_def js_def)
  have st: "students ?s = [Ann, Budi]"
    by (simp add: filled_form_def)
  note t = saveStudent_edit_unmatched_transition [OF hyps, of 1700000001000 Resolves]
  from t have e: "editId (saveStudent 1700000001000 Resolves ?s) = None"
    and n: "name (saveStudent 1700000001000 Resolves ?s) = []"
    and a: "AsyncStorage (saveStudent 1700000001000 Resolves ?s) =
           (case Resolves of
              Resolves \<Rightarrow> (AsyncStorage ?s)(js ''students'' \<mapsto> JSON_stringify (students ?s))
            | Rejects \<Rightarrow> AsyncStorage ?s)"
    by blast+
  from a have "AsyncStorage (saveStudent 1700000001000 Resolves ?s) (js ''students'') =
      Some (JSON_stringify [Ann, Budi])"
    by (simp add: st)
  with e n show ?thesis
    using hyps by simp
qed

section \<open>Further properties of the handlers\<close>

text \<open>
  For a non-empty email and password, when the call rejects (no response, or a status
  outside 200 to 299) or the body is \<open>null\<close>, \<open>handleLogin\<close> shows the dialog "Gagal" and
  the navigator stays where it is.
\<close>

theorem handleLogin_rejection_reported:
  assumes "em \<noteq> []" "pw \<noteq> []"
    and "result = Network_error \<or> (\<exists>status body. result = Response status body \<and> (status < 200 \<or> 300 \<le> status))
         \<or> (\<exists>status. result = Response status Nullish)"
  shows "handleLogin em pw result d = Alert_alert ''Gagal'' ''Email atau password salah'' d
       \<and> alerts (handleLogin em pw result d) =
           alerts d @ [(js ''Gagal'', js ''Email atau password salah'')]
       \<and> navigation (handleLogin em pw result d) = navigation d"
  using assms by (auto simp: handleLogin_def axios_post_def Alert_alert_def)

theorem handleLogin_rejection_reported_witness:
  "alerts (handleLogin (js ''eve.holt@reqres.in'') (js ''x'')
             (Response 400 (Data None)) (device0\<lparr>navigation := Login\<rparr>)) =
     [(js ''Gagal'', js ''Email atau password salah'')]
   \<and> navigation (handleLogin (js ''eve.holt@reqres.in'') (js ''x'')
             (Response 400 (Data None)) (device0\<lparr>navigation := Login\<rparr>)) = Login"
proof -
  have hyps: "js ''eve.holt@reqres.in'' \<noteq> []" "js ''x'' \<noteq> []"
    "Response 400 (Data None) = Network_error
     \<or> (\<exists>status body. Response 400 (Data None) = Response status body
           \<and> (status < 200 \<or> 300 \<le> status))
     \<or> (\<exists>status. Response 400 (Data None) = Response status Nullish)"
    by (simp_all add: js_def)
  from handleLogin_rejection_reported [OF hyps, of "device0\<lparr>navigation := Login\<rparr>"]
  have "alerts (handleLogin (js ''eve.holt@reqres.in'') (js ''x'')
             (Response 400 (Data None)) (device0\<lparr>navigation := Login\<rparr>)) =
          alerts (device0\<lparr>navigation := Login\<rparr>) @ [(js ''Gagal'', js ''Email atau password salah'')]"
    and "navigation (handleLogin (js ''eve.holt@reqres.in'') (js ''x'')
             (Response 400 (Data None)) (device0\<lparr>navigation := Login\<rparr>)) =
          navigation (device0\<lparr>navigation := Login\<rparr>)"
    by blast+
  then show ?thesis
    by (simp add: device0_def)
qed

text \<open>
  With an empty email or an empty password \<open>handleLogin\<close> shows the validation dialog
  and returns before the call: the result does not depend on what the network would answer.
\<close>

theorem handleLogin_empty_credentials:
  assumes "em = [] \<or> pw = []"
  shows "handleLogin em pw result d = Alert_alert ''Error'' ''Email dan password wajib diisi!'' d"
  using assms by (simp add: handleLogin_def)

theorem handleLogin_empty_credentials_witness:
  "handleLogin (js ''eve.holt@reqres.in'') [] (Response 200 (Data (Some (js ''QpwL5tke4Pnpja7X4''))))
     (device0\<lparr>navigation := Login\<rparr>) =
   device0\<lparr>navigation := Login,
           alerts := [(js ''Error'', js ''Email dan password wajib diisi!'')]\<rparr>"
  using handleLogin_empty_credentials
    [of "js ''eve.holt@reqres.in''" "[]" "Response 200 (Data (Some (js ''QpwL5tke4Pnpja7X4'')))"
        "device0\<lparr>navigation := Login\<rparr>"]
  by (simp add: device0_def Alert_alert_def)

text \<open>
  For a non-empty email and password, a status from 200 to 299 and a non-empty token,
  \<open>handleLogin\<close> shows the dialog "Sukses" and replaces the destination by the records
  screen.
\<close>

theorem handleLogin_success:
  assumes "em \<noteq> []" "pw \<noteq> []" "200 \<le> status" "status < 300" "token \<noteq> []"
  shows "handleLogin em pw (Response status (Data (Some token))) d =
           navigation_replace Home (Alert_alert ''Sukses'' ''Login berhasil!'' d)"
  using assms by (simp add: handleLogin_def axios_post_def truthy_def)

theorem handleLogin_success_witness:
  "navigation (handleLogin (js ''eve.holt@reqres.in'') (js ''cityslicka'')
     (Response 200 (Data (Some (js ''QpwL5tke4Pnpja7X4'')))) (device0\<lparr>navigation := Login\<rparr>)) = Home"
  using handleLogin_success
    [of "js ''eve.holt@reqres.in''" "js ''cityslicka''" 200 "js ''QpwL5tke4Pnpja7X4''"
        "device0\<lparr>navigation := Login\<rparr>"]
  by (simp add: js_def navigation_replace_def Alert_alert_def)

text \<open>
  When the user answers the confirmation dialog with "Batal", \<open>deleteStudent\<close> changes
  nothing but the dialogs shown.
\<close>

theorem deleteStudent_declined:
  "deleteStudent i Batal setItem s =
     Alert_alert ''Konfirmasi'' ''Apakah Anda yakin ingin menghapus siswa ini?'' s"
  by (simp add: deleteStudent_def)

text \<open>
  \<open>loadStudents\<close> logs a rejected read and keeps the state, and keeps the state when no
  item is stored under the key.
\<close>

theorem loadStudents_nothing_stored:
  "loadStudents Rejects s = Inr (console_error ''Gagal mengambil data dari AsyncStorage:'' s)
   \<and> loadStudents Resolves (s\<lparr>AsyncStorage := (AsyncStorage s)(js ''students'' := None)\<rparr>) =
       Inr (s\<lparr>AsyncStorage := (AsyncStorage s)(js ''students'' := None)\<rparr>)"
  by (simp add: loadStudents_def truthy_def)

text \<open>
  The scenario of the specification: from the empty list, adding Ann gives one record
  with the clock reading as id; editing it to grade 6 gives one record with that grade and
  the same id; deleting it gives the empty list.
\<close>

theorem add_edit_delete_scenario:
  "students (run [SetName (js ''Ann''), SetEmail (js ''a@x.com''), SetAge (js ''10''),
                  SetGrade (js ''5''), PressSave 1700000000000 Resolves] (mount device0)) =
     [\<lparr>id_s = Date_now_toString 1700000000000, first_name = js ''Ann'', last_name = [],
       email_s = js ''a@x.com'', age_s = js ''10'', grade_s = js ''5''\<rparr>]
   \<and> students (run [SetName (js ''Ann''), SetEmail (js ''a@x.com''), SetAge (js ''10''),
                  SetGrade (js ''5''), PressSave 1700000000000 Resolves,
                  PressEdit 0, SetGrade (js ''6''), PressSave 1700000009000 Resolves]
                 (mount device0)) =
     [\<lparr>id_s = Date_now_toString 1700000000000, first_name = js ''Ann'', last_name = [],
       email_s = js ''a@x.com'', age_s = js ''10'', grade_s = js ''6''\<rparr>]
   \<and> students (run [SetName (js ''Ann''), SetEmail (js ''a@x.com''), SetAge (js ''10''),
                  SetGrade (js ''5''), PressSave 1700000000000 Resolves,
                  PressEdit 0, SetGrade (js ''6''), PressSave 1700000009000 Resolves,
                  PressDelete 0 Hapus Resolves]
                 (mount device0)) = []"
proof -
  have nonempty: "Date_now_toString 1700000000000 \<noteq> []"
    by (simp add: Date_now_toString_def decimal_not_Nil)
  show ?thesis
    by (simp add: handler_defs mount_def device0_def truthy_def js_def editStudent_def
          deleteStudent_def Let_def nonempty)
qed

end
